theory Spec2Isabelle
  imports Main "HOL-Library.Sublist"
begin

section \<open>Python strings\<close>

text \<open>
  The server keeps all text as Python \<open>str\<close>.  A \<open>str\<close> is represented here by its UTF-8
  encoding, a list of bytes (\<open>string\<close>): concatenation, \<open>startswith\<close>, emptiness, and the
  search for and the splitting on the ASCII separators the program uses all commute with that
  encoding, because an ASCII byte never occurs inside a multi-byte sequence.  Under this
  representation \<open>bytes.decode('utf-8')\<close> is the identity on well-formed input and raises
  on everything else, and \<open>bytes(s, 'utf-8')\<close> is the identity.
\<close>

definition CRLF :: string where
  "CRLF = [CHR 0x0D, CHR 0x0A]"

definition END_OF_REQUEST :: string where
  "END_OF_REQUEST = [CHR 0x0D, CHR 0x0A, CHR 0x0D, CHR 0x0A]"

text \<open>\<open>s.find(sub)\<close>: the index of the leftmost occurrence, \<open>None\<close> for Python's \<open>-1\<close>.
  \<open>sub in s\<close> is \<open>str_find sub s \<noteq> None\<close> and \<open>s.index(sub)\<close> is the index found.\<close>

fun str_find :: "string \<Rightarrow> string \<Rightarrow> nat option" where
  "str_find sub [] = (if sub = [] then Some 0 else None)"
| "str_find sub (c # cs) =
     (if prefix sub (c # cs) then Some 0 else map_option Suc (str_find sub cs))"

lemma str_find_bound: "str_find sub s = Some i \<Longrightarrow> i + length sub \<le> length s"
proof (induction s arbitrary: i)
  case Nil
  then show ?case by (simp split: if_splits)
next
  case (Cons c cs)
  show ?case
  proof (cases "prefix sub (c # cs)")
    case True
    with Cons.prems have "i = 0" by simp
    with prefix_length_le [OF True] show ?thesis by simp
  next
    case False
    with Cons.prems obtain j where "str_find sub cs = Some j" "i = Suc j" by auto
    with Cons.IH show ?thesis by fastforce
  qed
qed

text \<open>\<open>s.split(sep)\<close> for a separator: cut at the leftmost occurrences, left to right.
  Python raises \<open>ValueError\<close> on an empty separator; the program only ever passes the
  three non-empty constants, and the model returns no token there.\<close>

function split_str :: "string \<Rightarrow> string \<Rightarrow> string list" where
  "split_str sep s =
     (if sep = [] then []
      else (case str_find sep s of
              None \<Rightarrow> [s]
            | Some i \<Rightarrow> take i s # split_str sep (drop (i + length sep) s)))"
  by pat_completeness auto
termination
proof (relation "measure (\<lambda>(sep, s). length s)")
  show "wf (measure (\<lambda>(sep, s). length s))" by simp
next
  fix sep s :: string and i :: nat
  assume "sep \<noteq> []" and "str_find sep s = Some i"
  then have "i + length sep \<le> length s" and "1 \<le> length sep"
    by (simp_all add: str_find_bound Suc_le_eq)
  then have "length s - (i + length sep) < length s"
    by arith
  then show "((sep, drop (i + length sep) s), (sep, s)) \<in> measure (\<lambda>(sep, s). length s)"
    by simp
qed

declare split_str.simps [simp del]

text \<open>\<open>sep.join(xs)\<close>.\<close>

fun join_str :: "string \<Rightarrow> string list \<Rightarrow> string" where
  "join_str sep [] = []"
| "join_str sep [x] = x"
| "join_str sep (x # y # ys) = x @ sep @ join_str sep (y # ys)"

section \<open>Requests and the request parser\<close>

datatype error =
    BadRequestError string
  | RecvTimeoutError
  | UnicodeDecodeError
  | AttributeError string
  | AssertionError string
  | IsADirectoryError
  | FileNotFoundError
  | KeyError
  | IndexError
  | TypeError
  | ValueError

record HTTPRequest =
  command :: string
  path :: string
  headers :: "string \<rightharpoonup> string"

definition is_connection_keep_alive :: "HTTPRequest \<Rightarrow> bool" where
  "is_connection_keep_alive request \<longleftrightarrow>
     headers request ''Connection'' \<noteq> None \<and>
     the (headers request ''Connection'') = ''keep-alive''"

text \<open>The loop over \<open>lines[1:]\<close> that fills the \<open>headers\<close> dict; a line that does not
  split into two parts raises from inside the loop.\<close>

fun parse_headers :: "string list \<Rightarrow> (string \<rightharpoonup> string) \<Rightarrow> error + (string \<rightharpoonup> string)" where
  "parse_headers [] hs = Inr hs"
| "parse_headers (line # rest) hs =
     (let key_value = split_str '': '' line in
      if length key_value \<noteq> 2
      then Inl (BadRequestError (''Malformed key-value header: '' @ line))
      else parse_headers rest (hs(key_value ! 0 \<mapsto> key_value ! 1)))"

text \<open>\<open>__parse_request\<close>.  \<open>required_keys\<close> is the one-element set \<open>{'Host'}\<close>, so the
  test on the size of the intersection is the test that \<open>'Host'\<close> is a key, and the
  joined difference in the message is \<open>'Host'\<close>.\<close>

definition parse_request :: "string \<Rightarrow> error + HTTPRequest" where
  "parse_request request_string =
     (case split_str CRLF request_string of
        [] \<Rightarrow> Inl IndexError
      | headline # header_lines \<Rightarrow>
         (let headline_components = split_str '' '' headline in
          if length headline_components \<noteq> 3
          then Inl (BadRequestError (''Headline must have 3 parts: '' @ headline))
          else
            (let cmd = headline_components ! 0;
                 resource_path = headline_components ! 1;
                 http_version = headline_components ! 2 in
             if cmd \<noteq> ''GET''
             then Inl (BadRequestError (''Only GET is supported: '' @ cmd))
             else if http_version \<noteq> ''HTTP/1.1''
             then Inl (BadRequestError (''Only HTTP/1 is supported: '' @ http_version))
             else
               (case parse_headers header_lines Map.empty of
                  Inl e \<Rightarrow> Inl e
                | Inr hs \<Rightarrow>
                    if hs ''Host'' = None
                    then Inl (BadRequestError (''Required headers: '' @ ''Host''))
                    else Inr \<lparr>command = cmd, path = resource_path, headers = hs\<rparr>))))"


section \<open>Responses\<close>

text \<open>A header value is whatever Python object the server puts into the \<open>headers\<close> dict:
  a \<open>str\<close>, an \<open>int\<close> (the file size) or \<open>None\<close> (no MIME guess).  The f-string
  \<open>f'{key}: {value}'\<close> renders it with \<open>str()\<close>.  A dict literal keeps insertion order,
  so the headers are an association list.\<close>

datatype header_value = StrValue string | IntValue nat | NoneValue

function str_nat :: "nat \<Rightarrow> string" where
  "str_nat n = (if n < 10 then [''0123456789'' ! n]
                else str_nat (n div 10) @ [''0123456789'' ! (n mod 10)])"
  by pat_completeness auto
termination
  by (relation "measure (\<lambda>n. n)") auto

declare str_nat.simps [simp del]

fun format_value :: "header_value \<Rightarrow> string" where
  "format_value (StrValue s) = s"
| "format_value (IntValue n) = str_nat n"
| "format_value NoneValue = ''None''"

record HTTPResponse =
  code :: nat
  response_headers :: "(string \<times> header_value) list"

definition CODE_DESCRIPTION :: "nat \<rightharpoonup> string" where
  "CODE_DESCRIPTION =
     [200 \<mapsto> ''OK'', 400 \<mapsto> ''Bad Request'', 404 \<mapsto> ''Not Found'']"

definition formatted_string :: "HTTPResponse \<Rightarrow> error + string" where
  "formatted_string response =
     (case CODE_DESCRIPTION (code response) of
        None \<Rightarrow> Inl KeyError
      | Some description \<Rightarrow>
          (let response_lines =
                 [''HTTP/1.1 '' @ str_nat (code response) @ '' '' @ description]
                 @ [''Server: Too-simple-http-server'']
                 @ map (\<lambda>(key, v). key @ '': '' @ format_value v) (response_headers response)
           in Inr (join_str CRLF response_lines @ (CRLF @ CRLF))))"

definition client_error_400 :: HTTPResponse where
  "client_error_400 = \<lparr>code = 400, response_headers = [(''Connection'', StrValue ''close'')]\<rparr>"

definition not_found_404 :: HTTPResponse where
  "not_found_404 = \<lparr>code = 404, response_headers = [(''Connection'', StrValue ''close'')]\<rparr>"

section \<open>The connection handler\<close>

text \<open>One \<open>connection.recv\<close> call either returns bytes or raises \<open>socket.timeout\<close>.  The
  socket is the list of the results of the \<open>recv\<close> calls still to come; once the list is
  used up the peer has closed and \<open>recv\<close> returns \<open>b''\<close>.  What the server does on the
  socket is recorded in order.  The handler record holds its buffer \<open>unprocessed_data\<close>
  and these two sides of its \<open>connection\<close>.\<close>

datatype recv_result = Bytes string | Timeout

datatype socket_op = Sendall string | Sendfile string | Close

record HTTPConnectionHandler =
  unprocessed_data :: string
  recv_queue :: "recv_result list"
  sent :: "socket_op list"

text \<open>Strict UTF-8 as \<open>bytes.decode('utf-8')\<close> accepts it: shortest forms only, no
  surrogates, nothing above U+10FFFF, and no sequence cut short by the end of the input.\<close>

definition byte_in :: "nat \<Rightarrow> nat \<Rightarrow> char \<Rightarrow> bool" where
  "byte_in lo hi c \<longleftrightarrow> lo \<le> of_char c \<and> of_char c \<le> hi"

fun utf8_valid :: "string \<Rightarrow> bool" where
  "utf8_valid [] = True"
| "utf8_valid (c # cs) =
     (if byte_in 0x00 0x7F c then utf8_valid cs
      else if byte_in 0xC2 0xDF c then
        (case cs of
           c1 # r \<Rightarrow> byte_in 0x80 0xBF c1 \<and> utf8_valid r
         | _ \<Rightarrow> False)
      else if byte_in 0xE0 0xEF c then
        (case cs of
           c1 # c2 # r \<Rightarrow>
             byte_in (if c = CHR 0xE0 then 0xA0 else 0x80)
                     (if c = CHR 0xED then 0x9F else 0xBF) c1
             \<and> byte_in 0x80 0xBF c2 \<and> utf8_valid r
         | _ \<Rightarrow> False)
      else if byte_in 0xF0 0xF4 c then
        (case cs of
           c1 # c2 # c3 # r \<Rightarrow>
             byte_in (if c = CHR 0xF0 then 0x90 else 0x80)
                     (if c = CHR 0xF4 then 0x8F else 0xBF) c1
             \<and> byte_in 0x80 0xBF c2 \<and> byte_in 0x80 0xBF c3 \<and> utf8_valid r
         | _ \<Rightarrow> False)
      else False)"

datatype frame_result = Frame string | NoMoreData | Raised error

text \<open>The \<open>while True\<close> loop of \<open>__detect_request_from_socket\<close>, up to the frame it cuts
  off: the buffer is searched first, then one \<open>recv\<close> result is decoded and appended.\<close>

fun detect_frame :: "string \<Rightarrow> recv_result list \<Rightarrow> frame_result \<times> string \<times> recv_result list" where
  "detect_frame buf [] =
     (case str_find END_OF_REQUEST buf of
        Some end_of_request_index \<Rightarrow>
          (Frame (take end_of_request_index buf),
           drop (end_of_request_index + length END_OF_REQUEST) buf, [])
      | None \<Rightarrow> (NoMoreData, buf, []))"
| "detect_frame buf (r # rest) =
     (case str_find END_OF_REQUEST buf of
        Some end_of_request_index \<Rightarrow>
          (Frame (take end_of_request_index buf),
           drop (end_of_request_index + length END_OF_REQUEST) buf, r # rest)
      | None \<Rightarrow>
         (case r of
            Timeout \<Rightarrow> (Raised RecvTimeoutError, buf, rest)
          | Bytes d \<Rightarrow>
              if \<not> utf8_valid d then (Raised UnicodeDecodeError, buf, rest)
              else if d = [] then (NoMoreData, buf, rest)
              else detect_frame (buf @ d) rest))"

definition detect_request_from_socket ::
  "HTTPConnectionHandler \<Rightarrow> (error + HTTPRequest option) \<times> HTTPConnectionHandler" where
  "detect_request_from_socket h =
     (case detect_frame (unprocessed_data h) (recv_queue h) of
        (res, buf, rs) \<Rightarrow>
          (case res of
             Frame request_string \<Rightarrow>
               (case parse_request request_string of
                  Inl e \<Rightarrow> Inl e
                | Inr request \<Rightarrow> Inr (Some request))
           | NoMoreData \<Rightarrow> Inr None
           | Raised e \<Rightarrow> Inl e,
           h\<lparr>unprocessed_data := buf, recv_queue := rs\<rparr>))"

definition get_request ::
  "HTTPConnectionHandler \<Rightarrow> (error + HTTPRequest option) \<times> HTTPConnectionHandler" where
  "get_request h = detect_request_from_socket h"

text \<open>\<open>sendall\<close> returns \<open>None\<close> whenever it returns, so the assertion after it holds.\<close>

definition send_response ::
  "HTTPConnectionHandler \<Rightarrow> HTTPResponse \<Rightarrow> (error + unit) \<times> HTTPConnectionHandler" where
  "send_response h response =
     (case formatted_string response of
        Inl e \<Rightarrow> (Inl e, h)
      | Inr response_string \<Rightarrow> (Inr (), h\<lparr>sent := sent h @ [Sendall response_string]\<rparr>))"

text \<open>The class \<open>HTTPConnectionHandler\<close> defines no method \<open>send_body\<close>: looking the
  attribute up raises before the argument of the call is evaluated.\<close>

definition send_body ::
  "HTTPConnectionHandler \<Rightarrow> (error + unit) \<times> HTTPConnectionHandler" where
  "send_body h = (Inl (AttributeError ''send_body''), h)"

definition close :: "HTTPConnectionHandler \<Rightarrow> HTTPConnectionHandler" where
  "close h = h\<lparr>sent := sent h @ [Close]\<rparr>"


section \<open>Paths and the file system\<close>

text \<open>\<open>os.path.join\<close> with two arguments, \<open>os.path.normpath\<close> and \<open>os.path.abspath\<close> of
  \<open>posixpath\<close>.\<close>

definition isabs :: "string \<Rightarrow> bool" where
  "isabs p \<longleftrightarrow> prefix ''/'' p"

definition path_join :: "string \<Rightarrow> string \<Rightarrow> string" where
  "path_join a b =
     (if prefix ''/'' b then b
      else if a = [] \<or> suffix ''/'' a then a @ b
      else a @ ''/'' @ b)"

definition norm_step :: "nat \<Rightarrow> string list \<Rightarrow> string \<Rightarrow> string list" where
  "norm_step initial_slashes new_comps component =
     (if component = [] \<or> component = ''.'' then new_comps
      else if component \<noteq> ''..'' \<or> (initial_slashes = 0 \<and> new_comps = [])
                \<or> (new_comps \<noteq> [] \<and> last new_comps = ''..'')
      then new_comps @ [component]
      else if new_comps \<noteq> [] then butlast new_comps
      else new_comps)"

definition normpath :: "string \<Rightarrow> string" where
  "normpath p =
     (if p = [] then ''.''
      else
        (let initial_slashes =
               (if \<not> prefix ''/'' p then 0
                else if prefix ''//'' p \<and> \<not> prefix ''///'' p then 2 else (1::nat));
             comps = split_str ''/'' p;
             new_comps = foldl (norm_step initial_slashes) [] comps;
             q = replicate initial_slashes CHR ''/'' @ join_str ''/'' new_comps
         in if q = [] then ''.'' else q))"

text \<open>What the operating system answers: the working directory, the file system as a map
  from absolute normalised paths to nodes, and the MIME guess.  \<open>os.path.getsize\<close> reads
  the size recorded for a node and \<open>sendfile\<close> later reads its bytes; the two are kept
  apart, as the server asserts their agreement rather than assuming it.  \<open>st_mtime\<close> is
  the time stamp \<open>os.path.getmtime\<close> returns, in seconds, and \<open>fromtimestamp_strftime\<close>
  stands for \<open>datetime.fromtimestamp(timestamp).strftime(time_format)\<close>: the string, or
  \<open>None\<close> where \<open>fromtimestamp\<close> raises because the time stamp is out of its range.\<close>

datatype fs_node =
    RegularFile (st_size: nat) (st_mtime: int) (contents: string)
  | Directory (st_size: nat) (st_mtime: int)

record os_env =
  getcwd :: string
  files :: "string \<rightharpoonup> fs_node"
  guess_type :: "string \<Rightarrow> string option"
  fromtimestamp_strftime :: "int \<Rightarrow> string option"

definition abspath :: "os_env \<Rightarrow> string \<Rightarrow> string" where
  "abspath env p = normpath (if isabs p then p else path_join (getcwd env) p)"

text \<open>\<open>get_last_modified_formatted_string\<close>: \<open>fromtimestamp\<close> raises \<open>ValueError\<close> for
  a year out of range (and \<open>OverflowError\<close> or \<open>OSError\<close> beyond what the platform
  supports; no clause of the server catches any of them).\<close>

definition get_last_modified_formatted_string :: "os_env \<Rightarrow> string \<Rightarrow> error + string" where
  "get_last_modified_formatted_string env requested_path =
     (case files env requested_path of
        None \<Rightarrow> Inl FileNotFoundError
      | Some node \<Rightarrow>
          (case fromtimestamp_strftime env (st_mtime node) of
             None \<Rightarrow> Inl ValueError
           | Some formatted \<Rightarrow> Inr formatted))"

definition send_file ::
  "os_env \<Rightarrow> HTTPConnectionHandler \<Rightarrow> string \<Rightarrow> (error + nat) \<times> HTTPConnectionHandler" where
  "send_file env h file_path =
     (case files env file_path of
        None \<Rightarrow> (Inl FileNotFoundError, h)
      | Some (Directory sz lm) \<Rightarrow> (Inl IsADirectoryError, h)
      | Some (RegularFile sz lm bytes) \<Rightarrow>
          (Inr (length bytes), h\<lparr>sent := sent h @ [Sendfile bytes]\<rparr>))"

section \<open>The HTTP server\<close>

record HTTPServer =
  serve_docroot :: "string option"
  serve_config :: "string \<rightharpoonup> string"

definition get_index_html_path :: "HTTPServer \<Rightarrow> string" where
  "get_index_html_path srv =
     path_join ''/'' (case serve_config srv ''index'' of None \<Rightarrow> ''index.html'' | Some p \<Rightarrow> p)"

definition get_abspath_relative_to_docroot :: "os_env \<Rightarrow> HTTPServer \<Rightarrow> string \<Rightarrow> error + string" where
  "get_abspath_relative_to_docroot env srv p =
     (case serve_docroot srv of
        None \<Rightarrow> Inl (AssertionError ''Must setup `serve_docroot` first.'')
      | Some docroot \<Rightarrow> Inr (abspath env (path_join docroot p)))"

text \<open>Statements in sequence: the second runs on the state the first leaves, unless the
  first raised.\<close>

definition then_do ::
  "(error + 'a) \<times> 's \<Rightarrow> ('a \<Rightarrow> 's \<Rightarrow> (error + 'b) \<times> 's) \<Rightarrow> (error + 'b) \<times> 's" where
  "then_do m k = (case m of (Inl e, s) \<Rightarrow> (Inl e, s) | (Inr a, s) \<Rightarrow> k a s)"

definition serve_file ::
  "os_env \<Rightarrow> HTTPServer \<Rightarrow> HTTPRequest \<Rightarrow> HTTPConnectionHandler
     \<Rightarrow> (error + unit) \<times> HTTPConnectionHandler" where
  "serve_file env srv request http_connection =
     (let requested_path =
            (if path request = ''/'' then get_index_html_path srv else path request);
          requested_path =
            (if prefix ''/'' requested_path then drop 1 requested_path else requested_path)
      in
      case get_abspath_relative_to_docroot env srv requested_path of
        Inl e \<Rightarrow> (Inl e, http_connection)
      | Inr abs_requested_path \<Rightarrow>
      (case serve_docroot srv of
        None \<Rightarrow> (Inl TypeError, http_connection)
      | Some docroot \<Rightarrow>
        (let abs_docroot_path = abspath env docroot in
         if \<not> prefix abs_docroot_path abs_requested_path then
           (if serve_config srv ''400'' \<noteq> None then
              then_do (send_response http_connection client_error_400) (\<lambda>u h. send_body h)
            else send_response http_connection client_error_400)
         else
           (case files env abs_requested_path of
              None \<Rightarrow>
                (if serve_config srv ''404'' \<noteq> None then
                   then_do (send_response http_connection not_found_404) (\<lambda>u h. send_body h)
                 else send_response http_connection not_found_404)
            | Some node \<Rightarrow>
                (let mimetype = guess_type env abs_requested_path;
                     file_size = st_size node
                 in
                 case get_last_modified_formatted_string env abs_requested_path of
                   Inl e \<Rightarrow> (Inl e, http_connection)
                 | Inr last_modified_time \<Rightarrow>
                 (let response_headers =
                       [(''Content-Type'',
                           (case mimetype of None \<Rightarrow> NoneValue | Some m \<Rightarrow> StrValue m)),
                        (''Content-Length'', IntValue file_size),
                        (''Last-Modified'', StrValue last_modified_time)]
                  in
                  then_do (send_response http_connection
                             \<lparr>code = 200, response_headers = response_headers\<rparr>)
                    (\<lambda>u h. then_do (send_file env h abs_requested_path)
                       (\<lambda>n_bytes_sent h'.
                          if n_bytes_sent = file_size then (Inr (), h')
                          else (Inl (AssertionError ''Incomplete file sent.''), h')))))))))"

text \<open>The loop of \<open>handle_tcp_connection\<close> runs until \<open>get_request\<close> returns nothing,
  a request does not ask for keep-alive, or something raises.  Every frame cut off takes
  the terminator out of the bytes still to be processed, which bounds the loop.\<close>

fun recv_weight :: "recv_result \<Rightarrow> nat" where
  "recv_weight (Bytes d) = Suc (length d)"
| "recv_weight Timeout = 1"

definition pending :: "HTTPConnectionHandler \<Rightarrow> nat" where
  "pending h = length (unprocessed_data h) + sum_list (map recv_weight (recv_queue h))"

lemma detect_frame_Frame_less:
  "detect_frame buf rs = (Frame f, buf', rs') \<Longrightarrow>
     length buf' + sum_list (map recv_weight rs') < length buf + sum_list (map recv_weight rs)"
proof (induction rs arbitrary: buf)
  case Nil
  then obtain i where i: "str_find END_OF_REQUEST buf = Some i"
    and b: "buf' = drop (i + length END_OF_REQUEST) buf" and r: "rs' = []"
    by (auto split: option.splits)
  from str_find_bound [OF i] b r show ?case
    by (simp add: END_OF_REQUEST_def)
next
  case (Cons r rest)
  show ?case
  proof (cases "str_find END_OF_REQUEST buf")
    case (Some i)
    with Cons.prems have b: "buf' = drop (i + length END_OF_REQUEST) buf" and r: "rs' = r # rest"
      by auto
    from str_find_bound [OF Some] b r show ?thesis
      by (simp add: END_OF_REQUEST_def)
  next
    case None
    with Cons.prems obtain d where d: "r = Bytes d" "detect_frame (buf @ d) rest = (Frame f, buf', rs')"
      by (auto split: recv_result.splits if_splits)
    from Cons.IH [OF d(2)] d(1) show ?thesis by simp
  qed
qed

lemma get_request_pending:
  assumes "fst (get_request h) = Inr (Some request)"
  shows "pending (snd (get_request h)) < pending h"
proof -
  obtain res buf rs where d: "detect_frame (unprocessed_data h) (recv_queue h) = (res, buf, rs)"
    by (metis prod_cases3)
  with assms obtain f where "res = Frame f"
    by (cases res)
       (auto simp: get_request_def detect_request_from_socket_def split: sum.splits)
  with d detect_frame_Frame_less [of "unprocessed_data h" "recv_queue h" f buf rs]
  show ?thesis
    by (simp add: get_request_def detect_request_from_socket_def pending_def)
qed

text \<open>Serving a file writes to the socket and leaves what is still to be read alone.\<close>

definition same_input :: "HTTPConnectionHandler \<Rightarrow> HTTPConnectionHandler \<Rightarrow> bool" where
  "same_input h h' \<longleftrightarrow> unprocessed_data h' = unprocessed_data h \<and> recv_queue h' = recv_queue h"

lemma same_input_trans: "same_input a b \<Longrightarrow> same_input b c \<Longrightarrow> same_input a c"
  by (simp add: same_input_def)

lemma then_do_same_input:
  assumes "same_input h (snd m)" and "\<And>a s. same_input s (snd (k a s))"
  shows "same_input h (snd (then_do m k))"
proof (cases m)
  case (Pair r s)
  show ?thesis
  proof (cases r)
    case (Inl e)
    with Pair assms(1) show ?thesis by (simp add: then_do_def)
  next
    case (Inr a)
    with Pair assms(1) assms(2) [of s a] show ?thesis
      by (simp add: then_do_def same_input_def)
  qed
qed

lemma send_response_same_input: "same_input h (snd (send_response h r))"
  by (simp add: send_response_def same_input_def split: sum.splits)

lemma send_body_same_input: "same_input h (snd (send_body h))"
  by (simp add: send_body_def same_input_def)

lemma send_file_same_input: "same_input h (snd (send_file env h p))"
  by (simp add: send_file_def same_input_def split: option.splits fs_node.splits)

lemma same_input_refl: "same_input h h"
  by (simp add: same_input_def)

lemma error_page_same_input:
  "same_input h (snd (then_do (send_response h r) (\<lambda>u h. send_body h)))"
  by (rule then_do_same_input, rule send_response_same_input, rule send_body_same_input)

lemma stream_same_input:
  "same_input h (snd (then_do (send_response h r)
     (\<lambda>u h. then_do (send_file env h p)
        (\<lambda>n h'. if n = sz then (Inr (), h') else (Inl e, h')))))"
proof (rule then_do_same_input)
  show "same_input h (snd (send_response h r))" by (rule send_response_same_input)
next
  fix a :: unit and s
  show "same_input s (snd (then_do (send_file env s p)
          (\<lambda>n h'. if n = sz then (Inr (), h') else (Inl e, h'))))"
  proof (rule then_do_same_input)
    show "same_input s (snd (send_file env s p))" by (rule send_file_same_input)
  next
    fix n :: nat and s'
    show "same_input s' (snd (if n = sz then (Inr (), s') else (Inl e, s')))"
      by (simp add: same_input_refl)
  qed
qed

text \<open>The absolute path \<open>__serve_file\<close> computes for a request, and the body of
  \<open>__serve_file\<close> in terms of it.\<close>

definition requested_abspath :: "os_env \<Rightarrow> HTTPServer \<Rightarrow> string \<Rightarrow> HTTPRequest \<Rightarrow> string" where
  "requested_abspath env srv docroot request =
     abspath env (path_join docroot
       (if prefix ''/'' (if path request = ''/'' then get_index_html_path srv else path request)
        then drop 1 (if path request = ''/'' then get_index_html_path srv else path request)
        else (if path request = ''/'' then get_index_html_path srv else path request)))"

lemma serve_file_unfold:
  assumes "serve_docroot srv = Some docroot"
  shows "serve_file env srv request h =
        (if \<not> prefix (abspath env docroot) (requested_abspath env srv docroot request) then
           (if serve_config srv ''400'' \<noteq> None then
              then_do (send_response h client_error_400) (\<lambda>u h. send_body h)
            else send_response h client_error_400)
         else
           (case files env (requested_abspath env srv docroot request) of
              None \<Rightarrow>
                (if serve_config srv ''404'' \<noteq> None then
                   then_do (send_response h not_found_404) (\<lambda>u h. send_body h)
                 else send_response h not_found_404)
            | Some node \<Rightarrow>
               (case get_last_modified_formatted_string env
                       (requested_abspath env srv docroot request) of
                  Inl e \<Rightarrow> (Inl e, h)
                | Inr last_modified_time \<Rightarrow>
                 then_do (send_response h \<lparr>code = 200, response_headers =
                       [(''Content-Type'',
                           (case guess_type env (requested_abspath env srv docroot request) of
                              None \<Rightarrow> NoneValue | Some m \<Rightarrow> StrValue m)),
                        (''Content-Length'', IntValue (st_size node)),
                        (''Last-Modified'', StrValue last_modified_time)]\<rparr>)
                   (\<lambda>u h. then_do (send_file env h (requested_abspath env srv docroot request))
                      (\<lambda>n_bytes_sent h'.
                         if n_bytes_sent = st_size node then (Inr (), h')
                         else (Inl (AssertionError ''Incomplete file sent.''), h'))))))"
  unfolding serve_file_def get_abspath_relative_to_docroot_def Let_def requested_abspath_def
  by (simp only: assms option.case sum.case)

lemma serve_file_unconfigured:
  assumes "serve_docroot srv = None"
  shows "serve_file env srv request h =
           (Inl (AssertionError ''Must setup `serve_docroot` first.''), h)"
  using assms by (simp add: serve_file_def get_abspath_relative_to_docroot_def)

lemma serve_file_same_input: "same_input h (snd (serve_file env srv request h))"
proof (cases "serve_docroot srv")
  case None
  then show ?thesis
    by (simp add: serve_file_unconfigured same_input_refl)
next
  case (Some docroot)
  show ?thesis
    unfolding serve_file_unfold [OF Some]
    by (simp add: same_input_refl error_page_same_input stream_same_input
        send_response_same_input split: option.split sum.split)
qed

lemma serve_file_pending: "pending (snd (serve_file env srv request h)) = pending h"
  using serve_file_same_input [of h env srv request]
  by (simp add: same_input_def pending_def)

text \<open>The \<open>while True\<close> loop of \<open>handle_tcp_connection\<close>.\<close>

function serve_loop ::
  "os_env \<Rightarrow> HTTPServer \<Rightarrow> HTTPConnectionHandler \<Rightarrow> (error + unit) \<times> HTTPConnectionHandler" where
  "serve_loop env srv http_connection =
     (let got = get_request http_connection in
      case fst got of
        Inl e \<Rightarrow> (Inl e, snd got)
      | Inr None \<Rightarrow> (Inr (), snd got)
      | Inr (Some request) \<Rightarrow>
          (let served = serve_file env srv request (snd got) in
           case fst served of
             Inl e \<Rightarrow> (Inl e, snd served)
           | Inr u \<Rightarrow>
               if \<not> is_connection_keep_alive request then (Inr (), snd served)
               else serve_loop env srv (snd served)))"
  by pat_completeness auto
termination
proof (relation "measure (\<lambda>(env, srv, h). pending h)")
  show "wf (measure (\<lambda>(env, srv, h). pending h))" by simp
next
  fix env srv http_connection got x2 request served u
  assume got: "got = get_request http_connection" and "fst got = Inr x2" and "x2 = Some request"
    and served: "served = serve_file env srv request (snd got)"
  then have "fst (get_request http_connection) = Inr (Some request)" by simp
  from get_request_pending [OF this] got
  have "pending (snd got) < pending http_connection" by simp
  moreover have "pending (snd served) = pending (snd got)"
    unfolding served by (rule serve_file_pending)
  ultimately show "((env, srv, snd served), (env, srv, http_connection))
               \<in> measure (\<lambda>(env, srv, h). pending h)"
    by simp
qed

declare serve_loop.simps [simp del]

text \<open>\<open>handle_tcp_connection\<close>: the \<open>try\<close> body is the loop; the two \<open>except\<close>
  clauses answer 400, any other exception goes on to the caller, and \<open>finally\<close> closes in
  every case.\<close>

definition except_finally ::
  "(error + unit) \<times> HTTPConnectionHandler \<Rightarrow> (error + unit) \<times> HTTPConnectionHandler" where
  "except_finally tried =
     (let handled =
            (case fst tried of
               Inl RecvTimeoutError \<Rightarrow>
                 if length (unprocessed_data (snd tried)) > 0
                 then send_response (snd tried) client_error_400
                 else (Inr (), snd tried)
             | Inl (BadRequestError e) \<Rightarrow> send_response (snd tried) client_error_400
             | _ \<Rightarrow> tried)
      in (fst handled, close (snd handled)))"

definition handle_tcp_connection ::
  "os_env \<Rightarrow> HTTPServer \<Rightarrow> recv_result list \<Rightarrow> (error + unit) \<times> HTTPConnectionHandler" where
  "handle_tcp_connection env srv connection =
     (let http_connection = \<lparr>unprocessed_data = [], recv_queue = connection, sent = []\<rparr>
      in except_finally (serve_loop env srv http_connection))"

text \<open>The states in which a session on a connection stands at the head of the loop, about
  to call \<open>get_request\<close>: the fresh handler, and every state reached from such a state by
  serving a keep-alive request without an error.\<close>

inductive loop_head ::
  "os_env \<Rightarrow> HTTPServer \<Rightarrow> recv_result list \<Rightarrow> HTTPConnectionHandler \<Rightarrow> bool"
  for env srv connection where
  first: "loop_head env srv connection
            \<lparr>unprocessed_data = [], recv_queue = connection, sent = []\<rparr>"
| again: "loop_head env srv connection h \<Longrightarrow>
          get_request h = (Inr (Some request), h1) \<Longrightarrow>
          serve_file env srv request h1 = (Inr (), h2) \<Longrightarrow>
          is_connection_keep_alive request \<Longrightarrow>
          loop_head env srv connection h2"

section \<open>Properties of the string primitives\<close>

lemma str_find_split:
  "str_find sub s = Some i \<Longrightarrow> s = take i s @ sub @ drop (i + length sub) s"
proof (induction s arbitrary: i)
  case Nil
  then show ?case by (simp split: if_splits)
next
  case (Cons c cs)
  show ?case
  proof (cases "prefix sub (c # cs)")
    case True
    then obtain zs where zs: "c # cs = sub @ zs" by (auto simp: prefix_def)
    from True Cons.prems have "i = 0" by simp
    with zs show ?thesis by simp
  next
    case False
    with Cons.prems obtain j where j: "str_find sub cs = Some j" "i = Suc j" by auto
    from Cons.IH [OF j(1)] j(2) show ?thesis by simp
  qed
qed

lemma str_find_first:
  "str_find sub s = Some i \<Longrightarrow> s = a @ sub @ b \<Longrightarrow> i \<le> length a"
proof (induction s arbitrary: i a)
  case Nil
  then show ?case by (simp split: if_splits)
next
  case (Cons c cs)
  show ?case
  proof (cases "prefix sub (c # cs)")
    case True
    with Cons.prems(1) show ?thesis by simp
  next
    case False
    with Cons.prems(1) obtain j where j: "str_find sub cs = Some j" "i = Suc j" by auto
    from False Cons.prems(2) have "a \<noteq> []" by (auto simp: prefix_def)
    then obtain a' where a': "a = c # a'" "cs = a' @ sub @ b"
      using Cons.prems(2) by (cases a) auto
    from Cons.IH [OF j(1) a'(2)] j(2) a'(1) show ?thesis by simp
  qed
qed

lemma str_find_prefix: "prefix sub s \<Longrightarrow> str_find sub s = Some 0"
  by (cases s) auto

lemma str_find_occurs: "\<exists>i. str_find sub (a @ sub @ b) = Some i"
proof (induction a)
  case Nil
  have "prefix sub (sub @ b)" by simp
  from str_find_prefix [OF this] show ?case by simp
next
  case (Cons c a)
  then show ?case by auto
qed

lemma str_find_None_iff: "str_find sub s = None \<longleftrightarrow> \<not> (\<exists>a b. s = a @ sub @ b)"
proof
  assume none: "str_find sub s = None"
  show "\<not> (\<exists>a b. s = a @ sub @ b)"
  proof
    assume "\<exists>a b. s = a @ sub @ b"
    then obtain a b where "s = a @ sub @ b" by blast
    with str_find_occurs [of sub a b] none show False by simp
  qed
next
  assume n: "\<not> (\<exists>a b. s = a @ sub @ b)"
  show "str_find sub s = None"
  proof (cases "str_find sub s")
    case None
    then show ?thesis .
  next
    case (Some i)
    from str_find_split [OF Some] n show ?thesis by blast
  qed
qed

lemma str_find_append:
  "str_find sub s = Some i \<Longrightarrow> str_find sub (s @ t) = Some i"
proof (induction s arbitrary: i)
  case Nil
  then have "sub = []" "i = 0" by (simp_all split: if_splits)
  then show ?case by (cases t) simp_all
next
  case (Cons c cs)
  show ?case
  proof (cases "prefix sub (c # cs)")
    case True
    then have "prefix sub ((c # cs) @ t)" by (rule prefix_prefix)
    with True Cons.prems show ?thesis by simp
  next
    case False
    with Cons.prems obtain j where j: "str_find sub cs = Some j" "i = Suc j" by auto
    from str_find_bound [OF j(1)] have len: "length sub \<le> length (c # cs)" by simp
    have "\<not> prefix sub ((c # cs) @ t)"
    proof
      assume "prefix sub ((c # cs) @ t)"
      with len have "prefix sub (c # cs)"
        by (metis prefix_length_prefix prefixI)
      with False show False by simp
    qed
    with False j Cons.IH [OF j(1)] show ?thesis by simp
  qed
qed

section \<open>The framer\<close>

lemma detect_frame_found:
  assumes "str_find END_OF_REQUEST buf = Some i"
  shows "detect_frame buf rs = (Frame (take i buf), drop (i + length END_OF_REQUEST) buf, rs)"
  using assms by (cases rs) simp_all

lemma get_request_of_detect_frame:
  assumes "detect_frame (unprocessed_data h) (recv_queue h) = (res, buf, rs)"
  shows "get_request h =
           (case res of
              Frame request_string \<Rightarrow>
                (case parse_request request_string of
                   Inl e \<Rightarrow> Inl e | Inr request \<Rightarrow> Inr (Some request))
            | NoMoreData \<Rightarrow> Inr None
            | Raised e \<Rightarrow> Inl e,
            h\<lparr>unprocessed_data := buf, recv_queue := rs\<rparr>)"
  using assms by (simp add: get_request_def detect_request_from_socket_def)

text \<open>
  C6: when the buffer holds the terminator, one step of the framer takes no bytes from the
  socket, cuts the buffer into the frame, the terminator and the rest, with the frame ending
  at the first occurrence of the terminator, keeps exactly the rest as the new buffer, and
  hands exactly the frame to the parser.
\<close>

theorem framer_step_partition:
  assumes "\<exists>a b. unprocessed_data h = a @ END_OF_REQUEST @ b"
  shows "\<exists>frame rest.
           detect_frame (unprocessed_data h) (recv_queue h) = (Frame frame, rest, recv_queue h)
         \<and> unprocessed_data h = frame @ END_OF_REQUEST @ rest
         \<and> (\<forall>a b. unprocessed_data h = a @ END_OF_REQUEST @ b \<longrightarrow> length frame \<le> length a)
         \<and> snd (get_request h) = h\<lparr>unprocessed_data := rest\<rparr>
         \<and> fst (get_request h) =
             (case parse_request frame of Inl e \<Rightarrow> Inl e | Inr request \<Rightarrow> Inr (Some request))"
proof -
  from assms obtain a b where "unprocessed_data h = a @ END_OF_REQUEST @ b" by blast
  with str_find_occurs [of END_OF_REQUEST a b]
  obtain i where i: "str_find END_OF_REQUEST (unprocessed_data h) = Some i" by auto
  let ?frame = "take i (unprocessed_data h)"
  let ?rest = "drop (i + length END_OF_REQUEST) (unprocessed_data h)"
  have d: "detect_frame (unprocessed_data h) (recv_queue h) = (Frame ?frame, ?rest, recv_queue h)"
    by (rule detect_frame_found [OF i])
  have s: "unprocessed_data h = ?frame @ END_OF_REQUEST @ ?rest"
    by (rule str_find_split [OF i])
  have f: "\<forall>a b. unprocessed_data h = a @ END_OF_REQUEST @ b \<longrightarrow> length ?frame \<le> length a"
    using str_find_first [OF i] by auto
  have g: "get_request h =
             (case parse_request ?frame of Inl e \<Rightarrow> Inl e | Inr request \<Rightarrow> Inr (Some request),
              h\<lparr>unprocessed_data := ?rest\<rparr>)"
    using get_request_of_detect_frame [OF d] by simp
  from d s f g show ?thesis by (intro exI [of _ ?frame] exI [of _ ?rest]) simp
qed

theorem framer_step_partition_witness:
  "let h = \<lparr>unprocessed_data = ''ab'' @ END_OF_REQUEST @ ''cd'',
             recv_queue = [Timeout], sent = []\<rparr>
   in (\<exists>a b. unprocessed_data h = a @ END_OF_REQUEST @ b)
    \<and> (\<exists>frame rest.
           detect_frame (unprocessed_data h) (recv_queue h) = (Frame frame, rest, recv_queue h)
         \<and> unprocessed_data h = frame @ END_OF_REQUEST @ rest
         \<and> (\<forall>a b. unprocessed_data h = a @ END_OF_REQUEST @ b \<longrightarrow> length frame \<le> length a)
         \<and> snd (get_request h) = h\<lparr>unprocessed_data := rest\<rparr>
         \<and> fst (get_request h) =
             (case parse_request frame of Inl e \<Rightarrow> Inl e | Inr request \<Rightarrow> Inr (Some request)))"
proof -
  let ?h = "\<lparr>unprocessed_data = ''ab'' @ END_OF_REQUEST @ ''cd'',
             recv_queue = [Timeout], sent = []\<rparr>"
  have ex: "\<exists>a b. unprocessed_data ?h = a @ END_OF_REQUEST @ b"
    by (rule exI [of _ "''ab''"], rule exI [of _ "''cd''"]) simp
  from ex framer_step_partition [OF ex] show ?thesis
    unfolding Let_def by (rule conjI)
qed

section \<open>The request parser\<close>

text \<open>The parser's contract as the specification words it: the first line of the frame, the
  header lines after it, what a header line contributes, and when a frame is accepted.\<close>

definition request_line :: "string \<Rightarrow> string" where
  "request_line s = hd (split_str CRLF s)"

definition header_lines :: "string \<Rightarrow> string list" where
  "header_lines s = tl (split_str CRLF s)"

definition header_pair :: "string \<Rightarrow> string \<times> string" where
  "header_pair l = (split_str '': '' l ! 0, split_str '': '' l ! 1)"

definition frame_accepted :: "string \<Rightarrow> bool" where
  "frame_accepted s \<longleftrightarrow>
     length (split_str '' '' (request_line s)) = 3
   \<and> split_str '' '' (request_line s) ! 0 = ''GET''
   \<and> split_str '' '' (request_line s) ! 2 = ''HTTP/1.1''
   \<and> (\<forall>l \<in> set (header_lines s). length (split_str '': '' l) = 2)
   \<and> ''Host'' \<in> set (map (\<lambda>l. fst (header_pair l)) (header_lines s))"

lemma split_str_nonempty: "sep \<noteq> [] \<Longrightarrow> split_str sep s \<noteq> []"
  by (subst split_str.simps) (simp split: option.splits)

lemma parse_headers_ok:
  "\<forall>l \<in> set ls. length (split_str '': '' l) = 2 \<Longrightarrow>
     parse_headers ls hs =
       Inr (fold (\<lambda>kv m. m(fst kv \<mapsto> snd kv)) (map header_pair ls) hs)"
  by (induction ls arbitrary: hs) (simp_all add: header_pair_def Let_def)

lemma parse_headers_bad:
  "\<not> (\<forall>l \<in> set ls. length (split_str '': '' l) = 2) \<Longrightarrow>
     \<exists>msg. parse_headers ls hs = Inl (BadRequestError msg)"
  by (induction ls arbitrary: hs) (auto simp: Let_def)

lemma dom_fold_upd:
  "dom (fold (\<lambda>kv m. m(fst kv \<mapsto> snd kv)) kvs hs) = dom hs \<union> fst ` set kvs"
  by (induction kvs arbitrary: hs) auto

lemma fold_upd_last:
  "fold (\<lambda>kv m. m(fst kv \<mapsto> snd kv)) kvs hs k = Some v \<longleftrightarrow>
     (\<exists>i<length kvs. kvs ! i = (k, v) \<and> (\<forall>j. i < j \<and> j < length kvs \<longrightarrow> fst (kvs ! j) \<noteq> k))
   \<or> ((\<forall>j<length kvs. fst (kvs ! j) \<noteq> k) \<and> hs k = Some v)"
proof (induction kvs rule: rev_induct)
  case Nil
  show ?case by simp
next
  case (snoc x xs)
  let ?m = "fold (\<lambda>kv m. m(fst kv \<mapsto> snd kv)) xs hs"
  show ?case
  proof (cases "fst x = k")
    case True
    have "(fold (\<lambda>kv m. m(fst kv \<mapsto> snd kv)) (xs @ [x]) hs k = Some v) = (snd x = v)"
      using True by simp
    also have "(snd x = v) =
      ((\<exists>i<length (xs @ [x]). (xs @ [x]) ! i = (k, v)
            \<and> (\<forall>j. i < j \<and> j < length (xs @ [x]) \<longrightarrow> fst ((xs @ [x]) ! j) \<noteq> k))
       \<or> ((\<forall>j<length (xs @ [x]). fst ((xs @ [x]) ! j) \<noteq> k) \<and> hs k = Some v))"
    proof
      assume "snd x = v"
      with True have "x = (k, v)" by (cases x) simp
      then have "(xs @ [x]) ! length xs = (k, v)" by simp
      then show "(\<exists>i<length (xs @ [x]). (xs @ [x]) ! i = (k, v)
            \<and> (\<forall>j. i < j \<and> j < length (xs @ [x]) \<longrightarrow> fst ((xs @ [x]) ! j) \<noteq> k))
       \<or> ((\<forall>j<length (xs @ [x]). fst ((xs @ [x]) ! j) \<noteq> k) \<and> hs k = Some v)"
        by (intro disjI1 exI [of _ "length xs"]) auto
    next
      assume r: "(\<exists>i<length (xs @ [x]). (xs @ [x]) ! i = (k, v)
            \<and> (\<forall>j. i < j \<and> j < length (xs @ [x]) \<longrightarrow> fst ((xs @ [x]) ! j) \<noteq> k))
       \<or> ((\<forall>j<length (xs @ [x]). fst ((xs @ [x]) ! j) \<noteq> k) \<and> hs k = Some v)"
      have last: "fst ((xs @ [x]) ! length xs) = k" using True by simp
      from r show "snd x = v"
      proof
        assume "\<exists>i<length (xs @ [x]). (xs @ [x]) ! i = (k, v)
            \<and> (\<forall>j. i < j \<and> j < length (xs @ [x]) \<longrightarrow> fst ((xs @ [x]) ! j) \<noteq> k)"
        then obtain i where i: "i < length (xs @ [x])" "(xs @ [x]) ! i = (k, v)"
          "\<forall>j. i < j \<and> j < length (xs @ [x]) \<longrightarrow> fst ((xs @ [x]) ! j) \<noteq> k" by blast
        have "\<not> i < length xs"
        proof
          assume "i < length xs"
          then have "i < length xs \<and> length xs < length (xs @ [x])" by simp
          with i(3) have "fst ((xs @ [x]) ! length xs) \<noteq> k" by blast
          with last show False by simp
        qed
        with i(1) have "i = length xs" by simp
        with i(2) show "snd x = v" by simp
      next
        assume "(\<forall>j<length (xs @ [x]). fst ((xs @ [x]) ! j) \<noteq> k) \<and> hs k = Some v"
        then have "\<forall>j<length (xs @ [x]). fst ((xs @ [x]) ! j) \<noteq> k" ..
        moreover have "length xs < length (xs @ [x])" by simp
        ultimately have "fst ((xs @ [x]) ! length xs) \<noteq> k" by blast
        with last show "snd x = v" by simp
      qed
    qed
    finally show ?thesis .
  next
    case False
    have "(fold (\<lambda>kv m. m(fst kv \<mapsto> snd kv)) (xs @ [x]) hs k = Some v) = (?m k = Some v)"
      using False by simp
    also have "\<dots> =
      ((\<exists>i<length xs. xs ! i = (k, v) \<and> (\<forall>j. i < j \<and> j < length xs \<longrightarrow> fst (xs ! j) \<noteq> k))
       \<or> ((\<forall>j<length xs. fst (xs ! j) \<noteq> k) \<and> hs k = Some v))"
      by (rule snoc.IH)
    also have "\<dots> =
      ((\<exists>i<length (xs @ [x]). (xs @ [x]) ! i = (k, v)
            \<and> (\<forall>j. i < j \<and> j < length (xs @ [x]) \<longrightarrow> fst ((xs @ [x]) ! j) \<noteq> k))
       \<or> ((\<forall>j<length (xs @ [x]). fst ((xs @ [x]) ! j) \<noteq> k) \<and> hs k = Some v))"
    proof -
      have x: "x \<noteq> (k, v)" using False by auto
      have a: "(\<exists>i<length (xs @ [x]). (xs @ [x]) ! i = (k, v)
            \<and> (\<forall>j. i < j \<and> j < length (xs @ [x]) \<longrightarrow> fst ((xs @ [x]) ! j) \<noteq> k))
         = (\<exists>i<length xs. xs ! i = (k, v) \<and> (\<forall>j. i < j \<and> j < length xs \<longrightarrow> fst (xs ! j) \<noteq> k))"
        using False x by (auto simp: nth_append less_Suc_eq)
      have b: "(\<forall>j<length (xs @ [x]). fst ((xs @ [x]) ! j) \<noteq> k)
         = (\<forall>j<length xs. fst (xs ! j) \<noteq> k)"
        using False by (auto simp: nth_append less_Suc_eq)
      show ?thesis unfolding a b ..
    qed
    finally show ?thesis .
  qed
qed


lemma parse_request_unfold:
  "parse_request s =
     (if length (split_str '' '' (request_line s)) \<noteq> 3
      then Inl (BadRequestError (''Headline must have 3 parts: '' @ request_line s))
      else if split_str '' '' (request_line s) ! 0 \<noteq> ''GET''
      then Inl (BadRequestError
                  (''Only GET is supported: '' @ split_str '' '' (request_line s) ! 0))
      else if split_str '' '' (request_line s) ! 2 \<noteq> ''HTTP/1.1''
      then Inl (BadRequestError
                  (''Only HTTP/1 is supported: '' @ split_str '' '' (request_line s) ! 2))
      else (case parse_headers (header_lines s) Map.empty of
              Inl e \<Rightarrow> Inl e
            | Inr hs \<Rightarrow>
                if hs ''Host'' = None
                then Inl (BadRequestError (''Required headers: '' @ ''Host''))
                else Inr \<lparr>command = split_str '' '' (request_line s) ! 0,
                          path = split_str '' '' (request_line s) ! 1,
                          headers = hs\<rparr>))"
proof -
  have "split_str CRLF s \<noteq> []"
    by (rule split_str_nonempty) (simp add: CRLF_def)
  then obtain headline rest where eq: "split_str CRLF s = headline # rest"
    by (cases "split_str CRLF s") auto
  then have rl: "request_line s = headline" and hl: "header_lines s = rest"
    by (simp_all add: request_line_def header_lines_def)
  show ?thesis
    unfolding rl hl parse_request_def eq by (simp add: Let_def split: sum.split)
qed


lemma parse_request_accepted:
  assumes "frame_accepted s"
  shows "parse_request s =
           Inr \<lparr>command = ''GET'', path = split_str '' '' (request_line s) ! 1,
                headers = fold (\<lambda>kv m. m(fst kv \<mapsto> snd kv))
                            (map header_pair (header_lines s)) Map.empty\<rparr>"
proof -
  let ?hs = "fold (\<lambda>kv m. m(fst kv \<mapsto> snd kv)) (map header_pair (header_lines s)) Map.empty"
  from assms have lines: "\<forall>l \<in> set (header_lines s). length (split_str '': '' l) = 2"
    and host: "''Host'' \<in> fst ` set (map header_pair (header_lines s))"
    by (auto simp: frame_accepted_def)
  have ph: "parse_headers (header_lines s) Map.empty = Inr ?hs"
    by (rule parse_headers_ok [OF lines])
  from host have "''Host'' \<in> dom ?hs"
    unfolding dom_fold_upd by simp
  then have "?hs ''Host'' \<noteq> None" by auto
  with assms ph show ?thesis
    by (simp add: parse_request_unfold frame_accepted_def)
qed

lemma parse_request_rejected:
  assumes "\<not> frame_accepted s"
  shows "\<exists>msg. parse_request s = Inl (BadRequestError msg)"
proof (cases "\<forall>l \<in> set (header_lines s). length (split_str '': '' l) = 2")
  case False
  from parse_headers_bad [OF False] obtain msg where
    "parse_headers (header_lines s) Map.empty = Inl (BadRequestError msg)" by blast
  then show ?thesis by (simp add: parse_request_unfold)
next
  case True
  let ?hs = "fold (\<lambda>kv m. m(fst kv \<mapsto> snd kv)) (map header_pair (header_lines s)) Map.empty"
  have ph: "parse_headers (header_lines s) Map.empty = Inr ?hs"
    by (rule parse_headers_ok [OF True])
  show ?thesis
  proof (cases "length (split_str '' '' (request_line s)) = 3
      \<and> split_str '' '' (request_line s) ! 0 = ''GET''
      \<and> split_str '' '' (request_line s) ! 2 = ''HTTP/1.1''")
    case False
    then show ?thesis by (auto simp: parse_request_unfold)
  next
    case line: True
    with assms True have "''Host'' \<notin> fst ` set (map header_pair (header_lines s))"
      by (auto simp: frame_accepted_def)
    then have "''Host'' \<notin> dom ?hs"
      unfolding dom_fold_upd by simp
    then have "?hs ''Host'' = None" by auto
    with line ph show ?thesis by (simp add: parse_request_unfold)
  qed
qed

lemma parse_request_Inr_accepted:
  assumes "parse_request s = Inr request"
  shows "frame_accepted s"
proof (rule ccontr)
  assume "\<not> frame_accepted s"
  from parse_request_rejected [OF this] assms show False by auto
qed

text \<open>
  C3: \<open>parse_request\<close> returns a request exactly for the accepted frames (a first line of
  three space-separated tokens, \<open>GET\<close> and \<open>HTTP/1.1\<close>, every later line splitting on
  \<open>": "\<close> into one key and one value, and \<open>Host\<close> among the keys); every other frame
  raises \<open>BadRequestError\<close>; and in a returned request the headers map a key to the value
  of the last line that carries the key.
\<close>

theorem request_parser_contract:
  "((\<exists>request. parse_request s = Inr request) \<longleftrightarrow> frame_accepted s)
   \<and> (\<not> frame_accepted s \<longrightarrow> (\<exists>msg. parse_request s = Inl (BadRequestError msg)))
   \<and> (\<forall>request. parse_request s = Inr request \<longrightarrow>
          command request = ''GET''
        \<and> path request = split_str '' '' (request_line s) ! 1
        \<and> (\<forall>key v. headers request key = Some v \<longleftrightarrow>
             (\<exists>i<length (header_lines s).
                 header_pair (header_lines s ! i) = (key, v)
               \<and> (\<forall>j. i < j \<and> j < length (header_lines s)
                      \<longrightarrow> fst (header_pair (header_lines s ! j)) \<noteq> key))))"
proof (intro conjI allI impI)
  show "(\<exists>request. parse_request s = Inr request) \<longleftrightarrow> frame_accepted s"
  proof
    assume "\<exists>request. parse_request s = Inr request"
    then show "frame_accepted s"
      using parse_request_Inr_accepted by blast
  next
    assume "frame_accepted s"
    from parse_request_accepted [OF this] show "\<exists>request. parse_request s = Inr request"
      by blast
  qed
next
  assume "\<not> frame_accepted s"
  then show "\<exists>msg. parse_request s = Inl (BadRequestError msg)"
    by (rule parse_request_rejected)
next
  fix request
  assume r: "parse_request s = Inr request"
  then have acc: "frame_accepted s"
    by (rule parse_request_Inr_accepted)
  from parse_request_accepted [OF acc] r
  have req: "request = \<lparr>command = ''GET'', path = split_str '' '' (request_line s) ! 1,
                headers = fold (\<lambda>kv m. m(fst kv \<mapsto> snd kv))
                            (map header_pair (header_lines s)) Map.empty\<rparr>"
    by simp
  show "command request = ''GET''" by (simp add: req)
  show "path request = split_str '' '' (request_line s) ! 1" by (simp add: req)
  fix key v
  have "headers request key = Some v \<longleftrightarrow>
      (\<exists>i<length (map header_pair (header_lines s)).
          map header_pair (header_lines s) ! i = (key, v)
        \<and> (\<forall>j. i < j \<and> j < length (map header_pair (header_lines s))
               \<longrightarrow> fst (map header_pair (header_lines s) ! j) \<noteq> key))"
    unfolding req using fold_upd_last [of "map header_pair (header_lines s)" Map.empty key v]
    by simp
  also have "\<dots> \<longleftrightarrow>
      (\<exists>i<length (header_lines s).
          header_pair (header_lines s ! i) = (key, v)
        \<and> (\<forall>j. i < j \<and> j < length (header_lines s)
               \<longrightarrow> fst (header_pair (header_lines s ! j)) \<noteq> key))"
    by (auto simp del: fst_conv)
  finally show "headers request key = Some v \<longleftrightarrow>
      (\<exists>i<length (header_lines s).
          header_pair (header_lines s ! i) = (key, v)
        \<and> (\<forall>j. i < j \<and> j < length (header_lines s)
               \<longrightarrow> fst (header_pair (header_lines s ! j)) \<noteq> key))" .
qed


theorem request_parser_contract_witness:
  "frame_accepted (''GET /a HTTP/1.1'' @ CRLF @ ''Host: x'' @ CRLF @ ''Host: y'')
   \<and> (\<exists>request.
         parse_request (''GET /a HTTP/1.1'' @ CRLF @ ''Host: x'' @ CRLF @ ''Host: y'') = Inr request
       \<and> command request = ''GET'' \<and> path request = ''/a''
       \<and> headers request ''Host'' = Some ''y'')
   \<and> \<not> frame_accepted (''GET /a HTTP/1.1'' @ CRLF @ ''Accept: x'')
   \<and> (\<exists>msg. parse_request (''GET /a HTTP/1.1'' @ CRLF @ ''Accept: x'')
                = Inl (BadRequestError msg))"
proof -
  let ?s = "''GET /a HTTP/1.1'' @ CRLF @ ''Host: x'' @ CRLF @ ''Host: y''"
  let ?t = "''GET /a HTTP/1.1'' @ CRLF @ ''Accept: x''"
  have acc: "frame_accepted ?s" by code_simp
  have rej: "\<not> frame_accepted ?t" by code_simp
  have p: "split_str '' '' (request_line ?s) ! 1 = ''/a''" by code_simp
  have len: "length (header_lines ?s) = 2" by code_simp
  have hp: "header_pair (header_lines ?s ! 1) = (''Host'', ''y'')" by code_simp
  note c = request_parser_contract [of ?s]
  from c acc obtain request where r: "parse_request ?s = Inr request" by blast
  from c r p have cp: "command request = ''GET''" "path request = ''/a''" by auto
  have "\<exists>i<length (header_lines ?s).
          header_pair (header_lines ?s ! i) = (''Host'', ''y'')
        \<and> (\<forall>j. i < j \<and> j < length (header_lines ?s)
               \<longrightarrow> fst (header_pair (header_lines ?s ! j)) \<noteq> ''Host'')"
    unfolding len using hp by (intro exI [of _ 1]) auto
  with c r have h: "headers request ''Host'' = Some ''y''" by blast
  from request_parser_contract [of ?t] rej
  have "\<exists>msg. parse_request ?t = Inl (BadRequestError msg)" by blast
  with acc rej r cp h show ?thesis by blast
qed

section \<open>What the server writes\<close>




lemma str_nat_codes: "str_nat 200 = ''200''" "str_nat 400 = ''400''" "str_nat 404 = ''404''"
  by code_simp+

lemma formatted_string_400:
  "formatted_string client_error_400 =
     Inr (''HTTP/1.1 400 Bad Request'' @ CRLF @ ''Server: Too-simple-http-server'' @ CRLF
          @ ''Connection: close'' @ CRLF @ CRLF)"
  by (simp add: formatted_string_def client_error_400_def CODE_DESCRIPTION_def str_nat_codes)

lemma formatted_string_404:
  "formatted_string not_found_404 =
     Inr (''HTTP/1.1 404 Not Found'' @ CRLF @ ''Server: Too-simple-http-server'' @ CRLF
          @ ''Connection: close'' @ CRLF @ CRLF)"
  by (simp add: formatted_string_def not_found_404_def CODE_DESCRIPTION_def str_nat_codes)

lemma formatted_string_200:
  "formatted_string \<lparr>code = 200, response_headers =
       [(''Content-Type'', ct), (''Content-Length'', IntValue n),
        (''Last-Modified'', StrValue lm)]\<rparr> =
     Inr (''HTTP/1.1 200 OK'' @ CRLF @ ''Server: Too-simple-http-server'' @ CRLF
          @ ''Content-Type: '' @ format_value ct @ CRLF
          @ ''Content-Length: '' @ str_nat n @ CRLF
          @ ''Last-Modified: '' @ lm @ CRLF @ CRLF)"
  by (simp add: formatted_string_def CODE_DESCRIPTION_def str_nat_codes)

definition bad_request_bytes :: string where
  "bad_request_bytes =
     ''HTTP/1.1 400 Bad Request'' @ CRLF @ ''Server: Too-simple-http-server'' @ CRLF
     @ ''Connection: close'' @ CRLF @ CRLF"

definition not_found_bytes :: string where
  "not_found_bytes =
     ''HTTP/1.1 404 Not Found'' @ CRLF @ ''Server: Too-simple-http-server'' @ CRLF
     @ ''Connection: close'' @ CRLF @ CRLF"

definition ok_bytes :: "string \<Rightarrow> nat \<Rightarrow> string \<Rightarrow> string" where
  "ok_bytes content_type content_length lm =
     ''HTTP/1.1 200 OK'' @ CRLF @ ''Server: Too-simple-http-server'' @ CRLF
     @ ''Content-Type: '' @ content_type @ CRLF
     @ ''Content-Length: '' @ str_nat content_length @ CRLF
     @ ''Last-Modified: '' @ lm @ CRLF @ CRLF"

lemma send_response_400:
  "send_response h client_error_400 = (Inr (), h\<lparr>sent := sent h @ [Sendall bad_request_bytes]\<rparr>)"
  by (simp add: send_response_def formatted_string_400 bad_request_bytes_def)

lemma send_response_404:
  "send_response h not_found_404 = (Inr (), h\<lparr>sent := sent h @ [Sendall not_found_bytes]\<rparr>)"
  by (simp add: send_response_def formatted_string_404 not_found_bytes_def)

lemma send_response_200:
  "send_response h \<lparr>code = 200, response_headers =
       [(''Content-Type'', ct), (''Content-Length'', IntValue n),
        (''Last-Modified'', StrValue lm)]\<rparr> =
     (Inr (), h\<lparr>sent := sent h @ [Sendall (ok_bytes (format_value ct) n lm)]\<rparr>)"
  by (simp add: send_response_def formatted_string_200 ok_bytes_def)

lemma serve_file_escape:
  assumes "serve_docroot srv = Some docroot"
    and "\<not> prefix (abspath env docroot) (requested_abspath env srv docroot request)"
  shows "serve_file env srv request h =
           (if serve_config srv ''400'' \<noteq> None then Inl (AttributeError ''send_body'') else Inr (),
            h\<lparr>sent := sent h @ [Sendall bad_request_bytes]\<rparr>)"
  using assms(2)
  by (simp add: serve_file_unfold [OF assms(1)] send_response_400 then_do_def send_body_def)

lemma serve_file_missing:
  assumes "serve_docroot srv = Some docroot"
    and "prefix (abspath env docroot) (requested_abspath env srv docroot request)"
    and "files env (requested_abspath env srv docroot request) = None"
  shows "serve_file env srv request h =
           (if serve_config srv ''404'' \<noteq> None then Inl (AttributeError ''send_body'') else Inr (),
            h\<lparr>sent := sent h @ [Sendall not_found_bytes]\<rparr>)"
  using assms(2,3)
  by (simp add: serve_file_unfold [OF assms(1)] send_response_404 then_do_def send_body_def)

lemma last_modified_of_node:
  assumes "files env p = Some node"
  shows "get_last_modified_formatted_string env p =
           (case fromtimestamp_strftime env (st_mtime node) of
              None \<Rightarrow> Inl ValueError | Some formatted \<Rightarrow> Inr formatted)"
  using assms by (simp add: get_last_modified_formatted_string_def)

lemma serve_file_time_error:
  assumes "serve_docroot srv = Some docroot"
    and "prefix (abspath env docroot) (requested_abspath env srv docroot request)"
    and "files env (requested_abspath env srv docroot request) = Some node"
    and "get_last_modified_formatted_string env (requested_abspath env srv docroot request)
           = Inl e"
  shows "serve_file env srv request h = (Inl e, h)"
  using assms(2,3,4) by (simp add: serve_file_unfold [OF assms(1)])

lemma serve_file_regular:
  assumes "serve_docroot srv = Some docroot"
    and "prefix (abspath env docroot) (requested_abspath env srv docroot request)"
    and "files env (requested_abspath env srv docroot request) = Some (RegularFile sz t bytes)"
    and "get_last_modified_formatted_string env (requested_abspath env srv docroot request)
           = Inr lm"
  shows "serve_file env srv request h =
           (if length bytes = sz then Inr () else Inl (AssertionError ''Incomplete file sent.''),
            h\<lparr>sent := sent h @
               [Sendall (ok_bytes
                  (case guess_type env (requested_abspath env srv docroot request) of
                     None \<Rightarrow> ''None'' | Some m \<Rightarrow> m) sz lm),
                Sendfile bytes]\<rparr>)"
  using assms(2,3,4)
  by (simp add: serve_file_unfold [OF assms(1)] send_response_200 then_do_def send_file_def
        split: option.split)

lemma serve_file_directory:
  assumes "serve_docroot srv = Some docroot"
    and "prefix (abspath env docroot) (requested_abspath env srv docroot request)"
    and "files env (requested_abspath env srv docroot request) = Some (Directory sz t)"
    and "get_last_modified_formatted_string env (requested_abspath env srv docroot request)
           = Inr lm"
  shows "serve_file env srv request h =
           (Inl IsADirectoryError,
            h\<lparr>sent := sent h @
               [Sendall (ok_bytes
                  (case guess_type env (requested_abspath env srv docroot request) of
                     None \<Rightarrow> ''None'' | Some m \<Rightarrow> m) sz lm)]\<rparr>)"
  using assms(2,3,4)
  by (simp add: serve_file_unfold [OF assms(1)] send_response_200 then_do_def send_file_def
        split: option.split)

section \<open>One pass of the session loop\<close>

lemma serve_loop_raise:
  "get_request h = (Inl e, h1) \<Longrightarrow> serve_loop env srv h = (Inl e, h1)"
  by (subst serve_loop.simps) simp

lemma serve_loop_no_more_data:
  "get_request h = (Inr None, h1) \<Longrightarrow> serve_loop env srv h = (Inr (), h1)"
  by (subst serve_loop.simps) simp

lemma serve_loop_request:
  "get_request h = (Inr (Some request), h1) \<Longrightarrow>
     serve_loop env srv h =
       (case fst (serve_file env srv request h1) of
          Inl e \<Rightarrow> (Inl e, snd (serve_file env srv request h1))
        | Inr u \<Rightarrow>
            if \<not> is_connection_keep_alive request
            then (Inr (), snd (serve_file env srv request h1))
            else serve_loop env srv (snd (serve_file env srv request h1)))"
  by (subst serve_loop.simps) (simp add: Let_def)

lemma except_finally_returned: "except_finally (Inr (), h) = (Inr (), close h)"
  by (simp add: except_finally_def)

lemma except_finally_timeout:
  "except_finally (Inl RecvTimeoutError, h) =
     (Inr (), h\<lparr>sent := sent h @ (if unprocessed_data h \<noteq> [] then [Sendall bad_request_bytes] else [])
                           @ [Close]\<rparr>)"
  by (simp add: except_finally_def send_response_400 close_def)

lemma except_finally_bad_request:
  "except_finally (Inl (BadRequestError m), h) =
     (Inr (), h\<lparr>sent := sent h @ [Sendall bad_request_bytes, Close]\<rparr>)"
  by (simp add: except_finally_def send_response_400 close_def)

lemma except_finally_uncaught:
  assumes "e \<noteq> RecvTimeoutError" and "\<forall>m. e \<noteq> BadRequestError m"
  shows "except_finally (Inl e, h) = (Inl e, close h)"
  using assms by (cases e) (simp_all add: except_finally_def)

text \<open>What serving one request does, case by case: the path escapes the docroot, the path
  does not exist, the time of the node does not format, the node is a regular file, the
  node is a directory.\<close>

lemma serve_file_cases:
  assumes "serve_docroot srv = Some docroot"
  obtains
    (escape) "serve_file env srv request h =
         (if serve_config srv ''400'' \<noteq> None then Inl (AttributeError ''send_body'') else Inr (),
          h\<lparr>sent := sent h @ [Sendall bad_request_bytes]\<rparr>)"
  | (missing) "serve_file env srv request h =
         (if serve_config srv ''404'' \<noteq> None then Inl (AttributeError ''send_body'') else Inr (),
          h\<lparr>sent := sent h @ [Sendall not_found_bytes]\<rparr>)"
  | (time_error) "serve_file env srv request h = (Inl ValueError, h)"
  | (regular) ct sz lm bytes where "serve_file env srv request h =
         (if length bytes = sz then Inr () else Inl (AssertionError ''Incomplete file sent.''),
          h\<lparr>sent := sent h @ [Sendall (ok_bytes ct sz lm), Sendfile bytes]\<rparr>)"
  | (directory) ct sz lm where "serve_file env srv request h =
         (Inl IsADirectoryError, h\<lparr>sent := sent h @ [Sendall (ok_bytes ct sz lm)]\<rparr>)"
proof -
  let ?p = "requested_abspath env srv docroot request"
  show ?thesis
  proof (cases "prefix (abspath env docroot) ?p")
    case False
    from serve_file_escape [OF assms False] show ?thesis by (rule escape)
  next
    case True
    show ?thesis
    proof (cases "files env ?p")
      case None
      from serve_file_missing [OF assms True None] show ?thesis by (rule missing)
    next
      case (Some node)
      show ?thesis
      proof (cases "fromtimestamp_strftime env (st_mtime node)")
        case None
        with last_modified_of_node [OF Some]
        have "get_last_modified_formatted_string env ?p = Inl ValueError" by simp
        from serve_file_time_error [OF assms True Some this] show ?thesis by (rule time_error)
      next
        case (Some lm)
        with last_modified_of_node [OF \<open>files env ?p = Some node\<close>]
        have t: "get_last_modified_formatted_string env ?p = Inr lm" by simp
        show ?thesis
        proof (cases node)
          case (RegularFile sz tm bytes)
          with \<open>files env ?p = Some node\<close>
          have f: "files env ?p = Some (RegularFile sz tm bytes)" by simp
          from serve_file_regular [OF assms True f t] show ?thesis by (rule regular)
        next
          case (Directory sz tm)
          with \<open>files env ?p = Some node\<close>
          have f: "files env ?p = Some (Directory sz tm)" by simp
          from serve_file_directory [OF assms True f t] show ?thesis by (rule directory)
        qed
      qed
    qed
  qed
qed

lemma serve_file_error_kinds:
  assumes "fst (serve_file env srv request h) = Inl e"
  shows "e \<noteq> RecvTimeoutError \<and> (\<forall>m. e \<noteq> BadRequestError m)"
proof (cases "serve_docroot srv")
  case None
  with assms show ?thesis by (auto simp: serve_file_unconfigured)
next
  case (Some docroot)
  then show ?thesis
    using assms by (cases rule: serve_file_cases [of srv docroot env request h])
      (auto split: if_splits)
qed

lemma serve_file_at_most_one_response:
  assumes "serve_docroot srv = Some docroot"
  shows "serve_file env srv request h = (Inl ValueError, h)
       \<or> (\<exists>response body.
             sent (snd (serve_file env srv request h)) = sent h @ Sendall response # body
           \<and> (body = [] \<or> (\<exists>bytes. body = [Sendfile bytes])))"
  using assms by (cases rule: serve_file_cases [of srv docroot env request h]) simp_all

lemma serve_loop_raised_in_serve_file:
  assumes "get_request h = (Inr (Some request), h1)"
    and "fst (serve_file env srv request h1) = Inl e"
  shows "except_finally (serve_loop env srv h) = (Inl e, close (snd (serve_file env srv request h1)))"
proof -
  from serve_file_error_kinds [OF assms(2)]
  have "e \<noteq> RecvTimeoutError" "\<forall>m. e \<noteq> BadRequestError m" by simp_all
  from except_finally_uncaught [OF this] assms show ?thesis
    by (simp add: serve_loop_request)
qed

lemma serve_loop_last_request:
  assumes "get_request h = (Inr (Some request), h1)"
    and "\<not> is_connection_keep_alive request"
  shows "except_finally (serve_loop env srv h) =
           (fst (serve_file env srv request h1), close (snd (serve_file env srv request h1)))"
proof (cases "fst (serve_file env srv request h1)")
  case (Inl e)
  with serve_loop_raised_in_serve_file [OF assms(1) Inl] show ?thesis by simp
next
  case (Inr u)
  with assms show ?thesis
    by (simp add: serve_loop_request except_finally_returned)
qed

lemma serve_loop_keep_alive:
  assumes "get_request h = (Inr (Some request), h1)"
    and "is_connection_keep_alive request"
    and "fst (serve_file env srv request h1) = Inr ()"
  shows "serve_loop env srv h = serve_loop env srv (snd (serve_file env srv request h1))"
  using assms by (simp add: serve_loop_request)

section \<open>A sample site\<close>

text \<open>The set-up of \<open>demo.py\<close>: the docroot \<open>sample_docroot\<close> with pages configured for
  400 and 404, started in \<open>/srv\<close>.  Next to the docroot lies a directory whose name begins
  with the docroot's name.  \<open>growing.log\<close> is a file that has grown between the moment its
  size is read and the moment it is sent.  The files carry the time stamp 0, which formats;
  \<open>relic.txt\<close> carries a time stamp in the year 33658, for which \<open>fromtimestamp\<close>
  raises.\<close>

definition sample_env :: os_env where
  "sample_env =
     \<lparr>getcwd = ''/srv'',
      files =
        [''/srv/sample_docroot/index.html'' \<mapsto> RegularFile 5 0 ''hello'',
         ''/srv/sample_docroot/400.html'' \<mapsto> RegularFile 11 0 ''bad request'',
         ''/srv/sample_docroot/404.html'' \<mapsto> RegularFile 9 0 ''not found'',
         ''/srv/sample_docroot/notes'' \<mapsto> RegularFile 4 0 ''memo'',
         ''/srv/sample_docroot/growing.log'' \<mapsto> RegularFile 3 0 ''abcde'',
         ''/srv/sample_docroot/relic.txt'' \<mapsto> RegularFile 5 1000000000000 ''relic'',
         ''/srv/sample_docroot/docs'' \<mapsto> Directory 64 0,
         ''/srv/sample_docroot-private/secret.txt'' \<mapsto> RegularFile 6 0 ''secret''],
      guess_type =
        (\<lambda>p. if suffix ''.html'' p then Some ''text/html''
             else if suffix ''.txt'' p then Some ''text/plain'' else None),
      fromtimestamp_strftime =
        (\<lambda>t. if t = 0 then Some ''Thu, 01 Jan 70 00:00:00 '' else None)\<rparr>"

definition sample_server :: HTTPServer where
  "sample_server =
     \<lparr>serve_docroot = Some ''sample_docroot'',
      serve_config = [''400'' \<mapsto> ''400.html'', ''404'' \<mapsto> ''404.html'']\<rparr>"

definition get :: "string \<Rightarrow> (string \<rightharpoonup> string) \<Rightarrow> HTTPRequest" where
  "get p hs = \<lparr>command = ''GET'', path = p, headers = hs\<rparr>"

lemma sample_docroot_abspath: "abspath sample_env ''sample_docroot'' = ''/srv/sample_docroot''"
  by code_simp

lemma sample_paths:
  "requested_abspath sample_env sample_server ''sample_docroot'' (get ''/'' hs)
     = ''/srv/sample_docroot/index.html''"
  "requested_abspath sample_env sample_server ''sample_docroot'' (get ''/notes'' hs)
     = ''/srv/sample_docroot/notes''"
  "requested_abspath sample_env sample_server ''sample_docroot'' (get ''/growing.log'' hs)
     = ''/srv/sample_docroot/growing.log''"
  "requested_abspath sample_env sample_server ''sample_docroot'' (get ''/missing.txt'' hs)
     = ''/srv/sample_docroot/missing.txt''"
  "requested_abspath sample_env sample_server ''sample_docroot''
       (get ''/../sample_docroot-private/secret.txt'' hs)
     = ''/srv/sample_docroot-private/secret.txt''"
  by code_simp+

lemma sample_files:
  "files sample_env ''/srv/sample_docroot/index.html'' = Some (RegularFile 5 0 ''hello'')"
  "files sample_env ''/srv/sample_docroot/notes'' = Some (RegularFile 4 0 ''memo'')"
  "files sample_env ''/srv/sample_docroot/growing.log'' = Some (RegularFile 3 0 ''abcde'')"
  "files sample_env ''/srv/sample_docroot/missing.txt'' = None"
  "files sample_env ''/srv/sample_docroot-private/secret.txt''
     = Some (RegularFile 6 0 ''secret'')"
  by (simp_all add: sample_env_def)

lemma sample_times:
  "get_last_modified_formatted_string sample_env ''/srv/sample_docroot/index.html''
     = Inr ''Thu, 01 Jan 70 00:00:00 ''"
  "get_last_modified_formatted_string sample_env ''/srv/sample_docroot/notes''
     = Inr ''Thu, 01 Jan 70 00:00:00 ''"
  "get_last_modified_formatted_string sample_env ''/srv/sample_docroot/growing.log''
     = Inr ''Thu, 01 Jan 70 00:00:00 ''"
  by code_simp+


lemma sample_guesses:
  "guess_type sample_env ''/srv/sample_docroot/index.html'' = Some ''text/html''"
  "guess_type sample_env ''/srv/sample_docroot/notes'' = None"
  "guess_type sample_env ''/srv/sample_docroot/growing.log'' = None"
  "guess_type sample_env ''/srv/sample_docroot-private/secret.txt'' = Some ''text/plain''"
  by code_simp+

lemma sample_docroot: "serve_docroot sample_server = Some ''sample_docroot''"
  by (simp add: sample_server_def)

section \<open>The session\<close>

lemma get_request_sent: "sent (snd (get_request h)) = sent h"
  by (simp add: get_request_def detect_request_from_socket_def split: prod.splits)

lemma serve_file_ops:
  "\<exists>ops. sent (snd (serve_file env srv request h)) = sent h @ ops \<and> Close \<notin> set ops"
proof (cases "serve_docroot srv")
  case None
  then show ?thesis by (simp add: serve_file_unconfigured)
next
  case (Some docroot)
  from serve_file_at_most_one_response [OF Some, of env request h] show ?thesis
  proof
    assume "serve_file env srv request h = (Inl ValueError, h)"
    then show ?thesis by simp
  next
    assume "\<exists>response body.
             sent (snd (serve_file env srv request h)) = sent h @ Sendall response # body
           \<and> (body = [] \<or> (\<exists>bytes. body = [Sendfile bytes]))"
    then obtain response body where
      s: "sent (snd (serve_file env srv request h)) = sent h @ Sendall response # body"
      and b: "body = [] \<or> (\<exists>bytes. body = [Sendfile bytes])"
      by blast
    from b have "Close \<notin> set (Sendall response # body)" by auto
    with s show ?thesis by blast
  qed
qed

lemma serve_loop_ops:
  "\<exists>ops. sent (snd (serve_loop env srv h)) = sent h @ ops \<and> Close \<notin> set ops"
proof (induction env srv h rule: serve_loop.induct)
  case (1 env srv h)
  obtain r h1 where g: "get_request h = (r, h1)" by (cases "get_request h")
  with get_request_sent [of h] have s1: "sent h1 = sent h" by simp
  show ?case
  proof (cases r)
    case (Inl e)
    with g s1 show ?thesis by (simp add: serve_loop_raise)
  next
    case (Inr x)
    show ?thesis
    proof (cases x)
      case None
      with g Inr s1 show ?thesis by (simp add: serve_loop_no_more_data)
    next
      case (Some request)
      with g Inr have g': "get_request h = (Inr (Some request), h1)" by simp
      let ?served = "serve_file env srv request h1"
      from serve_file_ops [of env srv request h1] s1 obtain ops where
        ops: "sent (snd ?served) = sent h @ ops" "Close \<notin> set ops" by auto
      show ?thesis
      proof (cases "fst ?served")
        case (Inl e)
        with g' ops show ?thesis by (simp add: serve_loop_request)
      next
        case served: (Inr u)
        show ?thesis
        proof (cases "is_connection_keep_alive request")
          case False
          with g' served ops show ?thesis by (simp add: serve_loop_request)
        next
          case True
          have "\<exists>ops'. sent (snd (serve_loop env srv (snd ?served))) = sent (snd ?served) @ ops'
                  \<and> Close \<notin> set ops'"
            using "1.IH" [of "get_request h" x request ?served u] g Inr Some served True
            by simp
          then obtain ops' where
            "sent (snd (serve_loop env srv (snd ?served))) = sent h @ ops @ ops'"
            "Close \<notin> set ops'"
            using ops(1) by auto
          with g' served True ops(2) show ?thesis
            by (simp add: serve_loop_request)
        qed
      qed
    qed
  qed
qed

lemma handle_at_loop_head:
  "loop_head env srv connection h \<Longrightarrow>
     handle_tcp_connection env srv connection = except_finally (serve_loop env srv h)"
proof (induction rule: loop_head.induct)
  case first
  show ?case by (simp add: handle_tcp_connection_def)
next
  case (again h request h1 h2)
  from again.hyps(2,3,4) have "serve_loop env srv h = serve_loop env srv h2"
    using serve_loop_keep_alive [of h request h1 env srv] by simp
  with again.IH show ?case by simp
qed

lemma loop_head_not_closed: "loop_head env srv connection h \<Longrightarrow> Close \<notin> set (sent h)"
proof (induction rule: loop_head.induct)
  case first
  show ?case by simp
next
  case (again h request h1 h2)
  from again.hyps(2) get_request_sent [of h] have "sent h1 = sent h" by simp
  moreover from serve_file_ops [of env srv request h1] again.hyps(3)
  obtain ops where "sent h2 = sent h1 @ ops" "Close \<notin> set ops" by auto
  ultimately show ?case using again.IH by simp
qed



text \<open>The reads that end in a time-out: pieces that decode and are not empty, none of them
  completing a terminator, and then the read that times out.\<close>

lemma detect_frame_timeout:
  assumes "\<forall>d \<in> set ds. d \<noteq> [] \<and> utf8_valid d"
    and "str_find END_OF_REQUEST (buf @ concat ds) = None"
  shows "detect_frame buf (map Bytes ds @ Timeout # rest)
           = (Raised RecvTimeoutError, buf @ concat ds, rest)"
  using assms
proof (induction ds arbitrary: buf)
  case Nil
  then show ?case by simp
next
  case (Cons d ds)
  have none: "str_find END_OF_REQUEST buf = None"
  proof (cases "str_find END_OF_REQUEST buf")
    case None
    then show ?thesis .
  next
    case (Some i)
    from str_find_append [OF Some, of "concat (d # ds)"] Cons.prems(2) show ?thesis by simp
  qed
  from Cons.prems have d: "d \<noteq> []" "utf8_valid d"
    and ds: "\<forall>d \<in> set ds. d \<noteq> [] \<and> utf8_valid d"
    and n: "str_find END_OF_REQUEST ((buf @ d) @ concat ds) = None"
    by simp_all
  from Cons.IH [OF ds n] none d show ?case by simp
qed

lemma get_request_timeout:
  assumes "recv_queue h = map Bytes ds @ Timeout # rest"
    and "\<forall>d \<in> set ds. d \<noteq> [] \<and> utf8_valid d"
    and "\<not> (\<exists>a b. unprocessed_data h @ concat ds = a @ END_OF_REQUEST @ b)"
  shows "get_request h =
           (Inl RecvTimeoutError,
            h\<lparr>unprocessed_data := unprocessed_data h @ concat ds, recv_queue := rest\<rparr>)"
proof -
  from assms(3) have "str_find END_OF_REQUEST (unprocessed_data h @ concat ds) = None"
    by (simp add: str_find_None_iff)
  from detect_frame_timeout [OF assms(2) this, of rest] assms(1)
  have "detect_frame (unprocessed_data h) (recv_queue h)
          = (Raised RecvTimeoutError, unprocessed_data h @ concat ds, rest)"
    by simp
  from get_request_of_detect_frame [OF this] show ?thesis by simp
qed

lemma parse_keep_alive:
  "parse_request (''GET / HTTP/1.1'' @ CRLF @ ''Host: x'' @ CRLF @ ''Connection: keep-alive'')
     = Inr (get ''/'' [''Host'' \<mapsto> ''x'', ''Connection'' \<mapsto> ''keep-alive''])"
proof -
  let ?f = "''GET / HTTP/1.1'' @ CRLF @ ''Host: x'' @ CRLF @ ''Connection: keep-alive''"
  have a: "frame_accepted ?f" by code_simp
  have p: "split_str '' '' (request_line ?f) ! 1 = ''/''" by code_simp
  have h: "map header_pair (header_lines ?f) = [(''Host'', ''x''), (''Connection'', ''keep-alive'')]"
    by code_simp
  show ?thesis
    unfolding parse_request_accepted [OF a] p h by (simp add: get_def)
qed

lemma get_request_frame:
  assumes "detect_frame (unprocessed_data h) (recv_queue h) = (Frame f, buf, rs)"
    and "parse_request f = Inr request"
  shows "get_request h = (Inr (Some request), h\<lparr>unprocessed_data := buf, recv_queue := rs\<rparr>)"
  using get_request_of_detect_frame [OF assms(1)] assms(2) by simp

lemma serve_sample_index:
  "serve_file sample_env sample_server (get ''/'' hs) h =
     (Inr (), h\<lparr>sent := sent h @
        [Sendall (ok_bytes ''text/html'' 5 ''Thu, 01 Jan 70 00:00:00 ''), Sendfile ''hello'']\<rparr>)"
  by (simp add: serve_file_regular [OF sample_docroot, where sz = 5 and bytes = "''hello''"
        and t = 0 and lm = "''Thu, 01 Jan 70 00:00:00 ''"]
      sample_docroot_abspath sample_paths sample_files sample_guesses sample_times)

text \<open>
  C7: take any point of a session at which the handler calls \<open>get_request\<close>, also after
  keep-alive requests have been served, and let the reads from there on deliver pieces that
  complete no frame and then time out.  Then \<open>get_request\<close> raises the time-out with the
  pieces appended to the buffer, and the session ends like this: if that buffer is not
  empty, exactly one 400 response is sent and then the connection is closed; if it is empty,
  the connection is closed and nothing is sent.  Nothing was closed before, and the time-out
  does not leave the handler as an error.
\<close>

theorem read_timeout_ends_session:
  assumes "loop_head env srv connection h"
    and "recv_queue h = map Bytes ds @ Timeout # rest"
    and "\<forall>d \<in> set ds. d \<noteq> [] \<and> utf8_valid d"
    and "\<not> (\<exists>a b. unprocessed_data h @ concat ds = a @ END_OF_REQUEST @ b)"
  shows "get_request h =
           (Inl RecvTimeoutError,
            h\<lparr>unprocessed_data := unprocessed_data h @ concat ds, recv_queue := rest\<rparr>)
       \<and> Close \<notin> set (sent h)
       \<and> handle_tcp_connection env srv connection =
           (Inr (),
            \<lparr>unprocessed_data = unprocessed_data h @ concat ds, recv_queue = rest,
             sent = sent h
                    @ (if unprocessed_data h @ concat ds \<noteq> []
                       then [Sendall bad_request_bytes] else [])
                    @ [Close]\<rparr>)"
proof -
  let ?h1 = "h\<lparr>unprocessed_data := unprocessed_data h @ concat ds, recv_queue := rest\<rparr>"
  have g: "get_request h = (Inl RecvTimeoutError, ?h1)"
    by (rule get_request_timeout [OF assms(2,3,4)])
  have c: "Close \<notin> set (sent h)"
    by (rule loop_head_not_closed [OF assms(1)])
  have "handle_tcp_connection env srv connection = except_finally (Inl RecvTimeoutError, ?h1)"
    using handle_at_loop_head [OF assms(1)] serve_loop_raise [OF g] by simp
  then have "handle_tcp_connection env srv connection =
           (Inr (),
            \<lparr>unprocessed_data = unprocessed_data h @ concat ds, recv_queue = rest,
             sent = sent h
                    @ (if unprocessed_data h @ concat ds \<noteq> []
                       then [Sendall bad_request_bytes] else [])
                    @ [Close]\<rparr>)"
    by (simp add: except_finally_timeout)
  with g c show ?thesis by blast
qed

theorem read_timeout_ends_session_witness:
  "handle_tcp_connection sample_env sample_server
     [Bytes (''GET / HTTP/1.1'' @ CRLF @ ''Host: x'' @ CRLF @ ''Connection: keep-alive''
             @ END_OF_REQUEST),
      Bytes ''GET /no'', Timeout]
     = (Inr (),
        \<lparr>unprocessed_data = ''GET /no'', recv_queue = [],
         sent = [Sendall (ok_bytes ''text/html'' 5 ''Thu, 01 Jan 70 00:00:00 ''),
                 Sendfile ''hello'', Sendall bad_request_bytes, Close]\<rparr>)
   \<and> handle_tcp_connection sample_env sample_server [Timeout]
     = (Inr (), \<lparr>unprocessed_data = [], recv_queue = [], sent = [Close]\<rparr>)"
proof -
  let ?c = "[Bytes (''GET / HTTP/1.1'' @ CRLF @ ''Host: x'' @ CRLF @ ''Connection: keep-alive''
                    @ END_OF_REQUEST),
             Bytes ''GET /no'', Timeout]"
  let ?r = "get ''/'' [''Host'' \<mapsto> ''x'', ''Connection'' \<mapsto> ''keep-alive'']"
  let ?h0 = "\<lparr>unprocessed_data = [], recv_queue = ?c, sent = []\<rparr>"
  let ?h1 = "\<lparr>unprocessed_data = [], recv_queue = [Bytes ''GET /no'', Timeout], sent = []\<rparr>"
  let ?h2 = "\<lparr>unprocessed_data = [], recv_queue = [Bytes ''GET /no'', Timeout],
              sent = [Sendall (ok_bytes ''text/html'' 5 ''Thu, 01 Jan 70 00:00:00 ''),
                      Sendfile ''hello'']\<rparr>"
  have d: "detect_frame (unprocessed_data ?h0) (recv_queue ?h0) =
             (Frame (''GET / HTTP/1.1'' @ CRLF @ ''Host: x'' @ CRLF @ ''Connection: keep-alive''),
              [], [Bytes ''GET /no'', Timeout])"
    by code_simp
  have g: "get_request ?h0 = (Inr (Some ?r), ?h1)"
    using get_request_frame [OF d parse_keep_alive] by simp
  have s: "serve_file sample_env sample_server ?r ?h1 = (Inr (), ?h2)"
    by (simp add: serve_sample_index)
  have k: "is_connection_keep_alive ?r"
    by (simp add: is_connection_keep_alive_def get_def)
  have l: "loop_head sample_env sample_server ?c ?h2"
    by (rule loop_head.again [OF loop_head.first g s k])
  have q: "recv_queue ?h2 = map Bytes [''GET /no''] @ Timeout # []" by simp
  have v: "\<forall>d \<in> set [''GET /no'']. d \<noteq> [] \<and> utf8_valid d" by code_simp
  have n: "\<not> (\<exists>a b. unprocessed_data ?h2 @ concat [''GET /no''] = a @ END_OF_REQUEST @ b)"
  proof -
    have "str_find END_OF_REQUEST (unprocessed_data ?h2 @ concat [''GET /no'']) = None"
      by code_simp
    then show ?thesis unfolding str_find_None_iff .
  qed
  from read_timeout_ends_session [OF l q v n]
  have 1: "handle_tcp_connection sample_env sample_server ?c
     = (Inr (),
        \<lparr>unprocessed_data = ''GET /no'', recv_queue = [],
         sent = [Sendall (ok_bytes ''text/html'' 5 ''Thu, 01 Jan 70 00:00:00 ''),
                 Sendfile ''hello'', Sendall bad_request_bytes, Close]\<rparr>)"
    by simp
  let ?i = "\<lparr>unprocessed_data = [], recv_queue = [Timeout], sent = []\<rparr>"
  have li: "loop_head sample_env sample_server [Timeout] ?i"
    by (rule loop_head.first)
  have qi: "recv_queue ?i = map Bytes [] @ Timeout # []" by simp
  have vi: "\<forall>d \<in> set ([] :: string list). d \<noteq> [] \<and> utf8_valid d" by simp
  have ni: "\<not> (\<exists>a b. unprocessed_data ?i @ concat [] = a @ END_OF_REQUEST @ b)"
    by (simp add: END_OF_REQUEST_def)
  from read_timeout_ends_session [OF li qi vi ni]
  have 2: "handle_tcp_connection sample_env sample_server [Timeout]
     = (Inr (), \<lparr>unprocessed_data = [], recv_queue = [], sent = [Close]\<rparr>)"
    by simp
  from 1 2 show ?thesis by blast
qed

section \<open>Serving an existing file\<close>




text \<open>
  C10: when the MIME guess for a served path is \<open>None\<close>, the 200 response still carries a
  \<open>Content-Type\<close> header, with the value \<open>None\<close> as \<open>str()\<close> prints it, followed by
  \<open>Content-Length\<close> with the size and \<open>Last-Modified\<close> with the formatted time of the
  file.
\<close>

theorem content_type_none_is_sent:
  assumes "serve_docroot srv = Some docroot"
    and "prefix (abspath env docroot) (requested_abspath env srv docroot request)"
    and "files env (requested_abspath env srv docroot request) = Some node"
    and "get_last_modified_formatted_string env (requested_abspath env srv docroot request)
           = Inr lm"
    and "guess_type env (requested_abspath env srv docroot request) = None"
  shows "\<exists>body.
           sent (snd (serve_file env srv request h)) =
             sent h @ Sendall
               (''HTTP/1.1 200 OK'' @ CRLF @ ''Server: Too-simple-http-server'' @ CRLF
                @ ''Content-Type: None'' @ CRLF
                @ ''Content-Length: '' @ str_nat (st_size node) @ CRLF
                @ ''Last-Modified: '' @ lm @ CRLF @ CRLF) # body"
proof (cases node)
  case (RegularFile sz t bytes)
  with assms(3) have f: "files env (requested_abspath env srv docroot request)
                           = Some (RegularFile sz t bytes)" by simp
  show ?thesis
    unfolding serve_file_regular [OF assms(1,2) f assms(4)]
    by (simp add: assms(5) RegularFile ok_bytes_def)
next
  case (Directory sz t)
  with assms(3) have f: "files env (requested_abspath env srv docroot request)
                           = Some (Directory sz t)" by simp
  show ?thesis
    unfolding serve_file_directory [OF assms(1,2) f assms(4)]
    by (simp add: assms(5) Directory ok_bytes_def)
qed

theorem content_type_none_is_sent_witness:
  "serve_docroot sample_server = Some ''sample_docroot''
   \<and> prefix (abspath sample_env ''sample_docroot'')
        (requested_abspath sample_env sample_server ''sample_docroot'' (get ''/notes'' Map.empty))
   \<and> files sample_env
        (requested_abspath sample_env sample_server ''sample_docroot'' (get ''/notes'' Map.empty))
       = Some (RegularFile 4 0 ''memo'')
   \<and> get_last_modified_formatted_string sample_env
        (requested_abspath sample_env sample_server ''sample_docroot'' (get ''/notes'' Map.empty))
       = Inr ''Thu, 01 Jan 70 00:00:00 ''
   \<and> guess_type sample_env
        (requested_abspath sample_env sample_server ''sample_docroot'' (get ''/notes'' Map.empty))
       = None
   \<and> (\<exists>body.
         sent (snd (serve_file sample_env sample_server (get ''/notes'' Map.empty)
                      \<lparr>unprocessed_data = [], recv_queue = [], sent = []\<rparr>)) =
           Sendall
             (''HTTP/1.1 200 OK'' @ CRLF @ ''Server: Too-simple-http-server'' @ CRLF
              @ ''Content-Type: None'' @ CRLF
              @ ''Content-Length: 4'' @ CRLF
              @ ''Last-Modified: Thu, 01 Jan 70 00:00:00 '' @ CRLF @ CRLF) # body)"
proof -
  let ?r = "get ''/notes'' Map.empty"
  let ?h = "\<lparr>unprocessed_data = [], recv_queue = [], sent = []\<rparr>"
  have a: "serve_docroot sample_server = Some ''sample_docroot''"
    by (rule sample_docroot)
  have b: "prefix (abspath sample_env ''sample_docroot'')
             (requested_abspath sample_env sample_server ''sample_docroot'' ?r)"
    by (simp add: sample_docroot_abspath sample_paths)
  have c: "files sample_env (requested_abspath sample_env sample_server ''sample_docroot'' ?r)
             = Some (RegularFile 4 0 ''memo'')"
    by (simp add: sample_paths sample_files)
  have t: "get_last_modified_formatted_string sample_env
             (requested_abspath sample_env sample_server ''sample_docroot'' ?r)
             = Inr ''Thu, 01 Jan 70 00:00:00 ''"
    by (simp add: sample_paths sample_times)
  have d: "guess_type sample_env
             (requested_abspath sample_env sample_server ''sample_docroot'' ?r) = None"
    by (simp add: sample_paths sample_guesses)
  have four: "str_nat 4 = ''4''" by code_simp
  from content_type_none_is_sent [OF a b c t d, of ?h] four
  have "\<exists>body.
         sent (snd (serve_file sample_env sample_server ?r ?h)) =
           Sendall
             (''HTTP/1.1 200 OK'' @ CRLF @ ''Server: Too-simple-http-server'' @ CRLF
              @ ''Content-Type: None'' @ CRLF
              @ ''Content-Length: 4'' @ CRLF
              @ ''Last-Modified: Thu, 01 Jan 70 00:00:00 '' @ CRLF @ CRLF) # body"
    by simp
  with a b c t d show ?thesis by blast
qed

section \<open>Keep-alive\<close>

lemma is_connection_keep_alive_iff:
  "is_connection_keep_alive request \<longleftrightarrow> headers request ''Connection'' = Some ''keep-alive''"
  by (auto simp: is_connection_keep_alive_def)

text \<open>
  C9: the keep-alive test is the equality of the value stored under the key
  \<open>Connection\<close> with the string \<open>keep-alive\<close>.  For a parsed request with any other value,
  or without the key, the loop ends with this request: the outcome of the session is the
  outcome of serving it, with the connection closed right after.  Serving it (on a server
  whose docroot is set) has sent one response, unless the time of the file did not format
  and nothing was sent.
\<close>

theorem keep_alive_is_exact_match:
  "(is_connection_keep_alive request \<longleftrightarrow> headers request ''Connection'' = Some ''keep-alive'')
   \<and> (get_request h = (Inr (Some request), h1)
        \<and> headers request ''Connection'' \<noteq> Some ''keep-alive'' \<longrightarrow>
        except_finally (serve_loop env srv h) =
          (fst (serve_file env srv request h1), close (snd (serve_file env srv request h1))))
   \<and> (serve_docroot srv \<noteq> None \<longrightarrow>
        serve_file env srv request h1 = (Inl ValueError, h1)
        \<or> (\<exists>response body.
              sent (snd (serve_file env srv request h1)) = sent h1 @ Sendall response # body
            \<and> (body = [] \<or> (\<exists>bytes. body = [Sendfile bytes]))))"
proof (intro conjI impI)
  show "is_connection_keep_alive request \<longleftrightarrow> headers request ''Connection'' = Some ''keep-alive''"
    by (rule is_connection_keep_alive_iff)
next
  assume a: "get_request h = (Inr (Some request), h1)
             \<and> headers request ''Connection'' \<noteq> Some ''keep-alive''"
  then have "\<not> is_connection_keep_alive request"
    by (simp add: is_connection_keep_alive_iff)
  with a show "except_finally (serve_loop env srv h) =
          (fst (serve_file env srv request h1), close (snd (serve_file env srv request h1)))"
    by (simp add: serve_loop_last_request)
next
  assume "serve_docroot srv \<noteq> None"
  then obtain docroot where "serve_docroot srv = Some docroot" by auto
  from serve_file_at_most_one_response [OF this]
  show "serve_file env srv request h1 = (Inl ValueError, h1)
        \<or> (\<exists>response body.
              sent (snd (serve_file env srv request h1)) = sent h1 @ Sendall response # body
            \<and> (body = [] \<or> (\<exists>bytes. body = [Sendfile bytes])))" .
qed

lemma parse_capitalised_keep_alive:
  "parse_request (''GET / HTTP/1.1'' @ CRLF @ ''Host: x'' @ CRLF @ ''Connection: Keep-Alive'')
     = Inr (get ''/'' [''Host'' \<mapsto> ''x'', ''Connection'' \<mapsto> ''Keep-Alive''])"
proof -
  let ?f = "''GET / HTTP/1.1'' @ CRLF @ ''Host: x'' @ CRLF @ ''Connection: Keep-Alive''"
  have a: "frame_accepted ?f" by code_simp
  have p: "split_str '' '' (request_line ?f) ! 1 = ''/''" by code_simp
  have h: "map header_pair (header_lines ?f) = [(''Host'', ''x''), (''Connection'', ''Keep-Alive'')]"
    by code_simp
  show ?thesis
    unfolding parse_request_accepted [OF a] p h by (simp add: get_def)
qed

theorem keep_alive_is_exact_match_witness:
  "\<not> is_connection_keep_alive (get ''/'' [''Host'' \<mapsto> ''x'', ''Connection'' \<mapsto> ''Keep-Alive''])
   \<and> get_request
        \<lparr>unprocessed_data = [],
         recv_queue = [Bytes (''GET / HTTP/1.1'' @ CRLF @ ''Host: x'' @ CRLF
                              @ ''Connection: Keep-Alive'' @ END_OF_REQUEST)],
         sent = []\<rparr>
       = (Inr (Some (get ''/'' [''Host'' \<mapsto> ''x'', ''Connection'' \<mapsto> ''Keep-Alive''])),
          \<lparr>unprocessed_data = [], recv_queue = [], sent = []\<rparr>)
   \<and> except_finally (serve_loop sample_env sample_server
        \<lparr>unprocessed_data = [],
         recv_queue = [Bytes (''GET / HTTP/1.1'' @ CRLF @ ''Host: x'' @ CRLF
                              @ ''Connection: Keep-Alive'' @ END_OF_REQUEST)],
         sent = []\<rparr>)
       = (Inr (),
          \<lparr>unprocessed_data = [], recv_queue = [],
           sent = [Sendall (ok_bytes ''text/html'' 5 ''Thu, 01 Jan 70 00:00:00 ''),
                   Sendfile ''hello'', Close]\<rparr>)"
proof -
  let ?r = "get ''/'' [''Host'' \<mapsto> ''x'', ''Connection'' \<mapsto> ''Keep-Alive'']"
  let ?h = "\<lparr>unprocessed_data = [],
         recv_queue = [Bytes (''GET / HTTP/1.1'' @ CRLF @ ''Host: x'' @ CRLF
                              @ ''Connection: Keep-Alive'' @ END_OF_REQUEST)],
         sent = []\<rparr>"
  let ?h1 = "\<lparr>unprocessed_data = [], recv_queue = [], sent = []\<rparr>"
  note c = keep_alive_is_exact_match [of ?r ?h ?h1 sample_env sample_server]
  have v: "headers ?r ''Connection'' \<noteq> Some ''keep-alive''"
    by (simp add: get_def)
  with c have n: "\<not> is_connection_keep_alive ?r" by blast
  have d: "detect_frame (unprocessed_data ?h) (recv_queue ?h) =
             (Frame (''GET / HTTP/1.1'' @ CRLF @ ''Host: x'' @ CRLF @ ''Connection: Keep-Alive''),
              [], [])"
    by code_simp
  have g: "get_request ?h = (Inr (Some ?r), ?h1)"
    using get_request_frame [OF d parse_capitalised_keep_alive] by simp
  have s: "serve_file sample_env sample_server ?r ?h1 =
             (Inr (), \<lparr>unprocessed_data = [], recv_queue = [],
                sent = [Sendall (ok_bytes ''text/html'' 5 ''Thu, 01 Jan 70 00:00:00 ''),
                        Sendfile ''hello'']\<rparr>)"
    by (simp add: serve_sample_index)
  from c g v have "except_finally (serve_loop sample_env sample_server ?h) =
          (fst (serve_file sample_env sample_server ?r ?h1),
           close (snd (serve_file sample_env sample_server ?r ?h1)))"
    by blast
  then have "except_finally (serve_loop sample_env sample_server ?h) =
      (Inr (), \<lparr>unprocessed_data = [], recv_queue = [],
           sent = [Sendall (ok_bytes ''text/html'' 5 ''Thu, 01 Jan 70 00:00:00 ''),
                   Sendfile ''hello'', Close]\<rparr>)"
    by (simp add: s close_def)
  with n g show ?thesis by blast
qed







section \<open>Containment in the docroot\<close>

text \<open>A normalised absolute path lies in a directory when it is the directory itself or
  continues the directory's path after a separator.\<close>

definition inside_directory :: "string \<Rightarrow> string \<Rightarrow> bool" where
  "inside_directory root p \<longleftrightarrow>
     p = root \<or> prefix (if suffix ''/'' root then root else root @ ''/'') p"

lemma inside_directory_prefix: "inside_directory root p \<Longrightarrow> prefix root p"
  by (auto simp: inside_directory_def prefix_def split: if_splits)

text \<open>
  C1 at the sample site: the request path \<open>/../sample_docroot-private/secret.txt\<close>
  resolves to a file in the directory next to the docroot, outside the docroot; the
  \<open>startswith\<close> test compares strings, the name of that directory begins with the name of
  the docroot, and the server answers 200 and streams the file.
\<close>

theorem sibling_directory_is_served:
  "abspath sample_env ''sample_docroot'' = ''/srv/sample_docroot''
   \<and> requested_abspath sample_env sample_server ''sample_docroot''
        (projr (parse_request
           (''GET /../sample_docroot-private/secret.txt HTTP/1.1'' @ CRLF @ ''Host: x'')))
       = ''/srv/sample_docroot-private/secret.txt''
   \<and> \<not> inside_directory ''/srv/sample_docroot'' ''/srv/sample_docroot-private/secret.txt''
   \<and> handle_tcp_connection sample_env sample_server
        [Bytes (''GET /../sample_docroot-private/secret.txt HTTP/1.1'' @ CRLF @ ''Host: x''
                @ END_OF_REQUEST)]
       = (Inr (),
          \<lparr>unprocessed_data = [], recv_queue = [],
           sent = [Sendall (ok_bytes ''text/plain'' 6 ''Thu, 01 Jan 70 00:00:00 ''),
                   Sendfile ''secret'', Close]\<rparr>)"
  by code_simp

section \<open>Missing files\<close>

text \<open>
  C2 at the sample site, where \<open>serve_config\<close> maps \<open>404\<close> to \<open>404.html\<close> and that page
  exists: the request for \<open>/missing.txt\<close> gets the 404 header block, then the call of the
  method \<open>send_body\<close>, which the handler class does not have, raises; no byte of the page is
  sent and the handler passes \<open>AttributeError\<close> on.  The request for the directory
  \<open>/docs\<close> passes the existence test, gets a 200 header block, and opening the directory
  raises.
\<close>

theorem configured_404_page_is_not_sent:
  "serve_config sample_server ''404'' = Some ''404.html''
   \<and> files sample_env ''/srv/sample_docroot/404.html''
       = Some (RegularFile 9 0 ''not found'')
   \<and> handle_tcp_connection sample_env sample_server
        [Bytes (''GET /missing.txt HTTP/1.1'' @ CRLF @ ''Host: x'' @ END_OF_REQUEST)]
       = (Inl (AttributeError ''send_body''),
          \<lparr>unprocessed_data = [], recv_queue = [],
           sent = [Sendall not_found_bytes, Close]\<rparr>)
   \<and> handle_tcp_connection sample_env sample_server
        [Bytes (''GET /docs HTTP/1.1'' @ CRLF @ ''Host: x'' @ END_OF_REQUEST)]
       = (Inl IsADirectoryError,
          \<lparr>unprocessed_data = [], recv_queue = [],
           sent = [Sendall (ok_bytes ''None'' 64 ''Thu, 01 Jan 70 00:00:00 ''), Close]\<rparr>)"
  by code_simp

section \<open>A time stamp out of range\<close>

text \<open>The time of \<open>relic.txt\<close> does not format: \<open>get_last_modified_formatted_string\<close>
  raises before anything is sent, and the connection is closed without a response.\<close>

lemma unformattable_time_sends_nothing:
  "handle_tcp_connection sample_env sample_server
     [Bytes (''GET /relic.txt HTTP/1.1'' @ CRLF @ ''Host: x'' @ END_OF_REQUEST)]
   = (Inl ValueError, \<lparr>unprocessed_data = [], recv_queue = [], sent = [Close]\<rparr>)"
  by code_simp

section \<open>Frames do not depend on how well-formed reads are cut\<close>

text \<open>The frames the framer hands out when it is called again and again on a connection,
  up to the first call that hands out none.\<close>

function frames_of :: "string \<Rightarrow> recv_result list \<Rightarrow> string list" where
  "frames_of buf rs =
     (let r = detect_frame buf rs in
      case fst r of
        Frame f \<Rightarrow> f # frames_of (fst (snd r)) (snd (snd r))
      | NoMoreData \<Rightarrow> []
      | Raised e \<Rightarrow> [])"
  by pat_completeness auto
termination
proof (relation "measure (\<lambda>(buf, rs). length buf + sum_list (map recv_weight rs))")
  show "wf (measure (\<lambda>(buf, rs). length buf + sum_list (map recv_weight rs)))" by simp
next
  fix buf rs r f
  assume r: "r = detect_frame buf rs" and f: "fst r = Frame f"
  then have "detect_frame buf rs = (Frame f, fst (snd r), snd (snd r))"
    by (metis prod.collapse)
  from detect_frame_Frame_less [OF this]
  show "((fst (snd r), snd (snd r)), (buf, rs))
          \<in> measure (\<lambda>(buf, rs). length buf + sum_list (map recv_weight rs))"
    by (simp add: case_prod_beta)
qed

declare frames_of.simps [simp del]

lemma frames_of_found:
  assumes "str_find END_OF_REQUEST buf = Some i"
  shows "frames_of buf rs = take i buf # frames_of (drop (i + length END_OF_REQUEST) buf) rs"
  by (subst frames_of.simps) (simp add: detect_frame_found [OF assms])

lemma frames_of_read:
  assumes "str_find END_OF_REQUEST buf = None" and "utf8_valid d" and "d \<noteq> []"
  shows "frames_of buf (Bytes d # rs) = frames_of (buf @ d) rs"
  using assms
  by (subst frames_of.simps, subst (2) frames_of.simps) simp

lemma frames_of_buffered:
  assumes "\<forall>d \<in> set chunks. d \<noteq> [] \<and> utf8_valid d"
  shows "frames_of buf (map Bytes chunks) = frames_of (buf @ concat chunks) []"
  using assms
proof (induction "length buf + sum_list (map (\<lambda>d. Suc (length d)) chunks)"
         arbitrary: buf chunks rule: less_induct)
  case less
  show ?case
  proof (cases "str_find END_OF_REQUEST buf")
    case (Some i)
    from str_find_bound [OF Some] have b: "i + length END_OF_REQUEST \<le> length buf" .
    then have i: "i \<le> length buf" by simp
    have lt: "length (drop (i + length END_OF_REQUEST) buf)
                 + sum_list (map (\<lambda>d. Suc (length d)) chunks)
              < length buf + sum_list (map (\<lambda>d. Suc (length d)) chunks)"
      using b by (simp add: END_OF_REQUEST_def)
    have "frames_of buf (map Bytes chunks) =
            take i buf # frames_of (drop (i + length END_OF_REQUEST) buf) (map Bytes chunks)"
      by (rule frames_of_found [OF Some])
    also have "\<dots> = take i buf
                 # frames_of (drop (i + length END_OF_REQUEST) buf @ concat chunks) []"
      using less.hyps [OF lt less.prems] by simp
    also have "\<dots> = take i (buf @ concat chunks)
                 # frames_of (drop (i + length END_OF_REQUEST) (buf @ concat chunks)) []"
      using b i by simp
    also have "\<dots> = frames_of (buf @ concat chunks) []"
      by (rule frames_of_found [OF str_find_append [OF Some], symmetric])
    finally show ?thesis .
  next
    case None
    show ?thesis
    proof (cases chunks)
      case Nil
      then show ?thesis by simp
    next
      case (Cons d ds)
      with less.prems have d: "d \<noteq> []" "utf8_valid d"
        and ds: "\<forall>d \<in> set ds. d \<noteq> [] \<and> utf8_valid d" by simp_all
      have lt: "length (buf @ d) + sum_list (map (\<lambda>d. Suc (length d)) ds)
                < length buf + sum_list (map (\<lambda>d. Suc (length d)) chunks)"
        using Cons by simp
      have "frames_of buf (map Bytes chunks) = frames_of (buf @ d) (map Bytes ds)"
        using frames_of_read [OF None d(2) d(1)] Cons by simp
      also have "\<dots> = frames_of ((buf @ d) @ concat ds) []"
        by (rule less.hyps [OF lt ds])
      finally show ?thesis using Cons by simp
    qed
  qed
qed


lemma utf8_valid_append:
  assumes b: "utf8_valid b"
  shows "utf8_valid a \<Longrightarrow> utf8_valid (a @ b)"
proof (induction a rule: utf8_valid.induct)
  case 1
  show ?case using b by simp
next
  case (2 c cs)
  show ?case
  proof (cases "byte_in 0x00 0x7F c")
    case True
    with "2.prems" have "utf8_valid cs" by simp
    with "2.IH"(1) True show ?thesis by simp
  next
    case n1: False
    show ?thesis
    proof (cases "byte_in 0xC2 0xDF c")
      case True
      from "2.prems" n1 True obtain c1 r where cs: "cs = c1 # r"
        and c1: "byte_in 0x80 0xBF c1" and r: "utf8_valid r"
        by (auto split: list.splits)
      from "2.IH"(2) [OF n1 True cs r] have "utf8_valid (r @ b)" .
      with n1 True cs c1 show ?thesis by simp
    next
      case n2: False
      show ?thesis
      proof (cases "byte_in 0xE0 0xEF c")
        case True
        from "2.prems" n1 n2 True obtain c1 c2 r where cs: "cs = c1 # c2 # r"
          and c1: "byte_in (if c = CHR 0xE0 then 0xA0 else 0x80)
                           (if c = CHR 0xED then 0x9F else 0xBF) c1"
          and c2: "byte_in 0x80 0xBF c2" and r: "utf8_valid r"
          by (auto split: list.splits)
        from cs have cs': "cs = c1 # (c2 # r)" "c2 # r = c2 # r" by simp_all
        from "2.IH"(3) [OF n1 n2 True cs' r] have "utf8_valid (r @ b)" .
        with n1 n2 True cs c1 c2 show ?thesis by simp
      next
        case n3: False
        show ?thesis
        proof (cases "byte_in 0xF0 0xF4 c")
          case True
          from "2.prems" n1 n2 n3 True obtain c1 c2 c3 r where cs: "cs = c1 # c2 # c3 # r"
            and c1: "byte_in (if c = CHR 0xF0 then 0x90 else 0x80)
                             (if c = CHR 0xF4 then 0x8F else 0xBF) c1"
            and c2: "byte_in 0x80 0xBF c2" and c3: "byte_in 0x80 0xBF c3"
            and r: "utf8_valid r"
            by (auto split: list.splits)
          from cs have cs': "cs = c1 # (c2 # c3 # r)" "c2 # c3 # r = c2 # (c3 # r)"
            "c3 # r = c3 # r" by simp_all
          from "2.IH"(4) [OF n1 n2 n3 True cs' r] have "utf8_valid (r @ b)" .
          with n1 n2 n3 True cs c1 c2 c3 show ?thesis by simp
        next
          case False
          with "2.prems" n1 n2 n3 show ?thesis by simp
        qed
      qed
    qed
  qed
qed

lemma utf8_valid_concat: "\<forall>d \<in> set chunks. utf8_valid d \<Longrightarrow> utf8_valid (concat chunks)"
  by (induction chunks) (simp_all add: utf8_valid_append)

text \<open>When every read returns a non-empty, well-formed piece of UTF-8, the frames are those
  of the whole stream delivered by one read.\<close>

lemma frames_of_chunking:
  assumes "\<forall>d \<in> set chunks. d \<noteq> [] \<and> utf8_valid d"
  shows "frames_of [] (map Bytes chunks) = frames_of [] [Bytes (concat chunks)]"
proof (cases "chunks = []")
  case True
  have "frames_of [] [] = []" "frames_of [] [Bytes []] = []"
    by (subst frames_of.simps, simp add: END_OF_REQUEST_def)+
  with True show ?thesis by simp
next
  case False
  then obtain d ds where c: "chunks = d # ds" by (cases chunks) auto
  with assms have "d \<noteq> []" by simp
  with c have ne: "concat chunks \<noteq> []" by simp
  from assms have v: "utf8_valid (concat chunks)" by (simp add: utf8_valid_concat)
  have "frames_of [] (map Bytes chunks) = frames_of ([] @ concat chunks) []"
    by (rule frames_of_buffered [OF assms])
  also have "\<dots> = frames_of ([] @ concat [concat chunks]) []" by simp
  also have "\<dots> = frames_of [] (map Bytes [concat chunks])"
    by (rule frames_of_buffered [symmetric]) (use ne v in simp)
  finally show ?thesis by simp
qed

section \<open>Reads that cut a character\<close>

text \<open>
  C5 on the request \<open>GET / HTTP/1.1\<close> with the header \<open>Host: caf\<close> followed by the two
  bytes \<open>C3 A9\<close> of one character: arriving in one read it is framed and served; arriving
  in two reads that part between those two bytes, the first read does not decode, the
  framer raises \<open>UnicodeDecodeError\<close> and the connection is closed without a response.
\<close>

theorem read_boundary_inside_character:
  "detect_frame []
      [Bytes (''GET / HTTP/1.1'' @ CRLF @ ''Host: caf'' @ [CHR 0xC3, CHR 0xA9] @ END_OF_REQUEST)]
     = (Frame (''GET / HTTP/1.1'' @ CRLF @ ''Host: caf'' @ [CHR 0xC3, CHR 0xA9]), [], [])
   \<and> detect_frame []
      [Bytes (''GET / HTTP/1.1'' @ CRLF @ ''Host: caf'' @ [CHR 0xC3]),
       Bytes ([CHR 0xA9] @ END_OF_REQUEST)]
     = (Raised UnicodeDecodeError, [], [Bytes ([CHR 0xA9] @ END_OF_REQUEST)])
   \<and> handle_tcp_connection sample_env sample_server
      [Bytes (''GET / HTTP/1.1'' @ CRLF @ ''Host: caf'' @ [CHR 0xC3, CHR 0xA9] @ END_OF_REQUEST)]
     = (Inr (),
        \<lparr>unprocessed_data = [], recv_queue = [],
         sent = [Sendall (ok_bytes ''text/html'' 5 ''Thu, 01 Jan 70 00:00:00 ''),
                 Sendfile ''hello'', Close]\<rparr>)
   \<and> handle_tcp_connection sample_env sample_server
      [Bytes (''GET / HTTP/1.1'' @ CRLF @ ''Host: caf'' @ [CHR 0xC3]),
       Bytes ([CHR 0xA9] @ END_OF_REQUEST)]
     = (Inl UnicodeDecodeError,
        \<lparr>unprocessed_data = [], recv_queue = [Bytes ([CHR 0xA9] @ END_OF_REQUEST)],
         sent = [Close]\<rparr>)"
  by code_simp

end
